theory Spec2Isabelle
  imports Complex_Main "HOL-Library.Product_Lexorder" "HOL-Library.Multiset" "HOL-Library.AList"
begin

section \<open>The level curve (LevelingManager.xpForLevel, LevelingManager.getLevelFromXP)\<close>

text \<open>
  Experience totals and levels are JavaScript numbers that the bot only ever produces by
  integer arithmetic; they are modelled as unbounded integers (exact below \<open>2^53\<close>).

  \<^verbatim>\<open>
  xpForLevel(level) {
    if (level <= 0) return 0;
    return 5 * level ** 2 + 50 * level + 100;
  }
  \<close>
\<close>

definition xpForLevel :: "int \<Rightarrow> int" where
  "xpForLevel level = (if level \<le> 0 then 0 else 5 * level ^ 2 + 50 * level + 100)"

text \<open>
  \<^verbatim>\<open>
  getLevelFromXP(xp) {
    if (xp <= 0) return 0;
    let level = 0;
    let xpNeededForNextLevel = this.xpForLevel(level + 1);
    while (xp >= xpNeededForNextLevel) {
      level++;
      xpNeededForNextLevel = this.xpForLevel(level + 1);
    }
    return level;
  }
  \<close>
  The loop variable \<open>xpNeededForNextLevel\<close> always holds \<open>xpForLevel (level + 1)\<close> at the
  loop head, so the loop is the recursion \<open>levelLoop\<close> on \<open>level\<close> alone.
\<close>

function levelLoop :: "int \<Rightarrow> int \<Rightarrow> int" where
  "levelLoop xp level =
     (if xp \<ge> xpForLevel (level + 1) then levelLoop xp (level + 1) else level)"
  by pat_completeness auto

lemma xpForLevel_ge_self: "level \<le> xpForLevel (level + 1) - 1"
proof (cases "level + 1 \<le> 0")
  case True
  then show ?thesis by (simp add: xpForLevel_def)
next
  case False
  then have "0 \<le> (level + 1) ^ 2" by simp
  with False show ?thesis by (simp add: xpForLevel_def)
qed

termination levelLoop
proof (relation "measure (\<lambda>(xp, level). nat (xp - level))")
  show "wf (measure (\<lambda>(xp, level). nat (xp - level)))" by simp
next
  fix xp level :: int
  assume "xpForLevel (level + 1) \<le> xp"
  with xpForLevel_ge_self [of level] have "level < xp" by linarith
  then show "((xp, level + 1), (xp, level)) \<in> measure (\<lambda>(xp, level). nat (xp - level))"
    by simp
qed

declare levelLoop.simps [simp del]

definition getLevelFromXP :: "int \<Rightarrow> int" where
  "getLevelFromXP xp = (if xp \<le> 0 then 0 else levelLoop xp 0)"

subsection \<open>Facts about the level curve\<close>

lemma xpForLevel_mono: "a \<le> b \<Longrightarrow> xpForLevel a \<le> xpForLevel b"
proof -
  assume ab: "a \<le> b"
  show ?thesis
  proof (cases "a \<le> 0")
    case True
    then show ?thesis by (simp add: xpForLevel_def)
  next
    case False
    with ab have sq: "a ^ 2 \<le> b ^ 2" by (intro power_mono) auto
    have "xpForLevel a = 5 * a ^ 2 + 50 * a + 100" "xpForLevel b = 5 * b ^ 2 + 50 * b + 100"
      using False ab by (simp_all add: xpForLevel_def)
    then show ?thesis using sq ab by linarith
  qed
qed

lemma xpForLevel_strict: "0 \<le> a \<Longrightarrow> xpForLevel a < xpForLevel (a + 1)"
proof -
  assume a: "0 \<le> a"
  show ?thesis
  proof (cases "a = 0")
    case True
    then show ?thesis by (simp add: xpForLevel_def)
  next
    case False
    with a have "xpForLevel a = 5 * a ^ 2 + 50 * a + 100"
      "xpForLevel (a + 1) = 5 * (a + 1) ^ 2 + 50 * (a + 1) + 100"
      by (simp_all add: xpForLevel_def)
    then show ?thesis using a by (simp add: power2_eq_square algebra_simps)
  qed
qed

lemma levelLoop_exact:
  "l \<le> L \<Longrightarrow> xpForLevel L \<le> xp \<Longrightarrow> xp < xpForLevel (L + 1) \<Longrightarrow> levelLoop xp l = L"
proof (induction "nat (L - l)" arbitrary: l)
  case 0
  then have "l = L" by simp
  with "0.prems" show ?case by (simp add: levelLoop.simps)
next
  case (Suc n)
  then have lt: "l + 1 \<le> L" by linarith
  then have "xpForLevel (l + 1) \<le> xp"
    using xpForLevel_mono [of "l + 1" L] Suc.prems by linarith
  moreover have "levelLoop xp (l + 1) = L"
    using Suc.hyps(1) [of "l + 1"] Suc.hyps(2) lt Suc.prems by simp
  ultimately show ?case by (simp add: levelLoop.simps [of xp l])
qed

lemma getLevelFromXP_exact:
  assumes "0 \<le> L" "xpForLevel L \<le> xp" "xp < xpForLevel (L + 1)"
  shows "getLevelFromXP xp = L"
proof (cases "xp \<le> 0")
  case True
  have "L = 0"
  proof (rule ccontr)
    assume "L \<noteq> 0"
    with assms(1) have "0 < L" by simp
    then have "0 < xpForLevel L" by (simp add: xpForLevel_def add_pos_nonneg)
    with assms(2) True show False by simp
  qed
  with True show ?thesis by (simp add: getLevelFromXP_def)
next
  case False
  then show ?thesis
    using levelLoop_exact [of 0 L xp] assms by (simp add: getLevelFromXP_def)
qed

lemma getLevelFromXP_zero: "getLevelFromXP 0 = 0"
  by (simp add: getLevelFromXP_def)

text \<open>
  Claim C1 (as amended). For every level \<open>L \<ge> 0\<close>, the level computed from exactly the
  experience required for \<open>L\<close> is \<open>L\<close>; for every level \<open>L \<ge> 1\<close>, one point less gives
  \<open>L - 1\<close>. Level 1 requires exactly 155 points: 154 points are level 0 and 155 points are
  level 1. At \<open>L = 0\<close> the requirement is 0, and one point less (\<open>-1\<close>) is still level 0,
  because \<open>getLevelFromXP\<close> returns 0 for every non-positive total.
\<close>

theorem level_boundary_exact:
  "(0 \<le> L \<longrightarrow> getLevelFromXP (xpForLevel L) = L) \<and>
   (1 \<le> L \<longrightarrow> getLevelFromXP (xpForLevel L - 1) = L - 1) \<and>
   getLevelFromXP (xpForLevel 0 - 1) = 0 \<and>
   xpForLevel 1 = 155 \<and> getLevelFromXP 154 = 0 \<and> getLevelFromXP 155 = 1"
proof (intro conjI impI)
  assume L: "0 \<le> L"
  show "getLevelFromXP (xpForLevel L) = L"
    using getLevelFromXP_exact [of L "xpForLevel L"] xpForLevel_strict [of L] L by simp
next
  assume L: "1 \<le> L"
  have "xpForLevel (L - 1) < xpForLevel L"
    using xpForLevel_strict [of "L - 1"] L by simp
  then show "getLevelFromXP (xpForLevel L - 1) = L - 1"
    using getLevelFromXP_exact [of "L - 1" "xpForLevel L - 1"] L by simp
next
  show "getLevelFromXP (xpForLevel 0 - 1) = 0"
    by (simp add: getLevelFromXP_def xpForLevel_def)
next
  show one: "xpForLevel 1 = 155" by (simp add: xpForLevel_def)
  have two: "xpForLevel 2 = 220" by (simp add: xpForLevel_def)
  have zero: "xpForLevel 0 = 0" by (simp add: xpForLevel_def)
  show "getLevelFromXP 154 = 0"
    using getLevelFromXP_exact [of 0 154] one zero by simp
  show "getLevelFromXP 155 = 1"
    using getLevelFromXP_exact [of 1 155] one two by simp
qed

theorem level_boundary_exact_witness:
  "getLevelFromXP (xpForLevel 3) = 3 \<and> getLevelFromXP (xpForLevel 3 - 1) = 2 \<and>
   xpForLevel 3 = 295"
  using level_boundary_exact [of 3] by (simp add: xpForLevel_def)

text \<open>
  The claim as written also asserts \<open>getLevelFromXP (xpForLevel L - 1) = L - 1\<close> at
  \<open>L = 0\<close>, that is, level \<open>-1\<close> for \<open>-1\<close> points. The code returns level 0 there.
\<close>

theorem level_boundary_counterexample:
  "getLevelFromXP (xpForLevel 0 - 1) \<noteq> 0 - 1"
  by (simp add: getLevelFromXP_def xpForLevel_def)

section \<open>Data model\<close>

text \<open>
  A document of the \<open>UserLevel\<close> collection (the Mongoose schema \<open>UserLevelSchema\<close>), with the
  fields the managers read and write. Identifiers are Discord snowflakes, kept as strings.
\<close>

record UserLevel =
  guildId :: string
  userId :: string
  xp :: int
  level :: int
  lastMessageTimestamp :: int
  totalMessages :: int
  totalVoiceDurationMillis :: int

text \<open>
  The schema sets \<open>timestamps: true\<close>, so a stored document also carries \<open>updatedAt\<close>, which
  Mongoose maintains and only the leaderboard query reads.
\<close>

record UserLevelDoc = UserLevel +
  updatedAt :: int

text \<open>
  A guild configuration object as the managers see it. Every property may be missing
  (\<open>None\<close> stands for \<open>undefined\<close>): the code itself guards its reads with \<open>??\<close>, \<open>||\<close> and
  \<open>?.\<close>. Numbers are JavaScript numbers, modelled as exact rationals. The three maps are kept
  as entry lists in iteration order; the keys of \<open>levelRoles\<close> are the decimal strings that
  \<open>/levelconfig rewards add_role\<close> writes with \<open>level.toString()\<close>, kept here as the integers
  that \<open>parseInt(levelStr, 10)\<close> reads back. Properties that no modelled function inspects
  (\<open>levelUpChannelId\<close>, \<open>levelUpMessageFormat\<close>, \<open>rankCardBackground\<close>) are left out.
\<close>

record GuildConfig =
  cfgGuildId :: "string option"
  xpPerMessage :: "rat option"
  xpPerMinuteVoice :: "rat option"
  messageCooldownSeconds :: "rat option"
  roleMultipliers :: "(string \<times> rat) list option"
  channelMultipliers :: "(string \<times> rat) list option"
  ignoredRoles :: "string list option"
  ignoredChannels :: "string list option"
  levelUpMessageEnabled :: "bool option"
  levelRoles :: "(int \<times> string) list option"
  roleRemovalStrategy :: "string option"
  enablePenaltySystem :: "bool option"
  leaderboardStyle :: "string option"

text \<open>The domain events that \<open>LevelingManager\<close> emits on the \<open>LevelingSystem\<close> bus.\<close>

datatype event =
    XpGained string string int string UserLevel
  | LevelUp string string int int UserLevel
  | RoleAwarded string string int string
  | RoleRemoved string string int string string
  | XpLost string string int string UserLevel
  | LevelDown string string int int UserLevel
  | ErrorEvent string

text \<open>
  The state the ledger works on: the \<open>UserLevel\<close> collection, unique on
  \<open>(guildId, userId)\<close>; the cache entries stored under \<open>level-${guildId}-${userId}\<close> (the key
  is kept as the pair it is built from); the role ids each guild member holds on Discord
  (\<open>None\<close>: \<open>guild.members.fetch\<close> fails); and the log of emitted events.
  Handlers run one after the other; persistence failures (storage unreachable) are not
  modelled.
\<close>

record ledger =
  db :: "string \<times> string \<Rightarrow> UserLevel option"
  cache :: "string \<times> string \<Rightarrow> UserLevel option"
  memberRoles :: "string \<times> string \<Rightarrow> string list option"
  events :: "event list"

definition emit :: "event list \<Rightarrow> ledger \<Rightarrow> ledger" where
  "emit es s = s\<lparr>events := events s @ es\<rparr>"

section \<open>LevelingManager.getUserLevelData\<close>

text \<open>
  \<^verbatim>\<open>
  if (!guildId || !userId) throw new Error(...);
  let userData = this.cacheManager.get(cacheKey);
  if (!userData) {
    userData = await UserLevel.findOneAndUpdate({ guildId, userId },
      { $setOnInsert: { guildId, userId, xp: 0, level: 0, lastMessageTimestamp: 0,
                        totalMessages: 0, totalVoiceDurationMillis: 0 } },
      { upsert: true, new: true, setDefaultsOnInsert: true }).lean();
    if (userData) { ...; this.cacheManager.set(cacheKey, userData); } else { ... }
  }
  return { ...userData };
  \<close>
  With \<open>upsert: true, new: true\<close> the query returns the stored document, inserting the
  zero document first when there is none; its \<open>else\<close> branch is not reachable. A thrown
  \<open>Error\<close> is the \<open>Inl\<close> of its message.
\<close>

definition zeroUser :: "string \<Rightarrow> string \<Rightarrow> UserLevel" where
  "zeroUser g u = \<lparr>guildId = g, userId = u, xp = 0, level = 0, lastMessageTimestamp = 0,
     totalMessages = 0, totalVoiceDurationMillis = 0\<rparr>"

definition getUserLevelData :: "ledger \<Rightarrow> string \<Rightarrow> string \<Rightarrow> string + (ledger \<times> UserLevel)" where
  "getUserLevelData s g u =
     (if g = [] \<or> u = [] then
        Inl ''[LevelingManager] guildId dan userId diperlukan untuk getUserLevelData.''
      else case cache s (g, u) of
        Some userData \<Rightarrow> Inr (s, userData)
      | None \<Rightarrow>
          (let userData = (case db s (g, u) of Some row \<Rightarrow> row | None \<Rightarrow> zeroUser g u)
           in Inr (s\<lparr>db := (db s)((g, u) \<mapsto> userData),
                     cache := (cache s)((g, u) \<mapsto> userData)\<rparr>, userData)))"

section \<open>Role rewards on level-up (the role block of LevelingManager.addXP)\<close>

text \<open>
  \<^verbatim>\<open>
  const rolesToAdd = [];
  for (const [levelStr, roleId] of levelRolesMap.entries()) {
    const requiredLevel = parseInt(levelStr, 10);
    if (newLevel >= requiredLevel && oldLevel < requiredLevel &&
        !member.roles.cache.has(roleId)) rolesToAdd.push(roleId);
  }
  \<close>
\<close>

definition rolesToAdd :: "(int \<times> string) list \<Rightarrow> int \<Rightarrow> int \<Rightarrow> string list \<Rightarrow> string list" where
  "rolesToAdd levelRolesMap oldLevel newLevel held =
     map snd (filter (\<lambda>(requiredLevel, roleId).
        newLevel \<ge> requiredLevel \<and> oldLevel < requiredLevel \<and> roleId \<notin> set held) levelRolesMap)"

text \<open>
  Strategy \<open>highest_only\<close>: the first loop finds the reward of the highest required level
  that \<open>newLevel\<close> has reached (starting from \<open>highestQualifiedLevel = -1\<close>,
  \<open>highestRoleId = null\<close>); the second marks every other reward role the member holds.
\<close>

definition highestQualified :: "(int \<times> string) list \<Rightarrow> int \<Rightarrow> int \<times> string option" where
  "highestQualified levelRolesMap newLevel =
     fold (\<lambda>(requiredLevel, roleId) (highestQualifiedLevel, highestRoleId).
             if newLevel \<ge> requiredLevel \<and> requiredLevel > highestQualifiedLevel
             then (requiredLevel, Some roleId)
             else (highestQualifiedLevel, highestRoleId))
          levelRolesMap (- 1, None)"

definition rolesToRemoveHighestOnly :: "(int \<times> string) list \<Rightarrow> int \<Rightarrow> string list \<Rightarrow> string list" where
  "rolesToRemoveHighestOnly levelRolesMap newLevel currentMemberRoles =
     map snd (filter (\<lambda>(requiredLevel, roleId).
        Some roleId \<noteq> snd (highestQualified levelRolesMap newLevel) \<and>
        roleId \<in> set currentMemberRoles) levelRolesMap)"

text \<open>
  Strategy \<open>remove_previous\<close>:
  \<^verbatim>\<open>
  for (const [levelStr, roleId] of levelRolesMap.entries()) {
    const requiredLevel = parseInt(levelStr, 10);
    if (requiredLevel < newLevel && currentMemberRoles.has(roleId)) {
      let isRewardForCurrentLevel = false;
      for (const [lvlStrCheck, roleIdCheck] of levelRolesMap.entries()) {
        if (parseInt(lvlStrCheck, 10) === newLevel && roleIdCheck === roleId) {
          isRewardForCurrentLevel = true; break;
        }
      }
      if (!isRewardForCurrentLevel) rolesToRemove.push(roleId);
    }
  }
  \<close>
\<close>

definition isRewardForCurrentLevel :: "(int \<times> string) list \<Rightarrow> int \<Rightarrow> string \<Rightarrow> bool" where
  "isRewardForCurrentLevel levelRolesMap newLevel roleId =
     list_ex (\<lambda>(lvlCheck, roleIdCheck). lvlCheck = newLevel \<and> roleIdCheck = roleId) levelRolesMap"

definition rolesToRemovePrevious :: "(int \<times> string) list \<Rightarrow> int \<Rightarrow> string list \<Rightarrow> string list" where
  "rolesToRemovePrevious levelRolesMap newLevel currentMemberRoles =
     map snd (filter (\<lambda>(requiredLevel, roleId).
        requiredLevel < newLevel \<and> roleId \<in> set currentMemberRoles \<and>
        \<not> isRewardForCurrentLevel levelRolesMap newLevel roleId) levelRolesMap)"

definition rolesToRemove :: "string \<Rightarrow> (int \<times> string) list \<Rightarrow> int \<Rightarrow> string list \<Rightarrow> string list" where
  "rolesToRemove strategy levelRolesMap newLevel currentMemberRoles =
     (if strategy = ''highest_only'' then
        rolesToRemoveHighestOnly levelRolesMap newLevel currentMemberRoles
      else if strategy = ''remove_previous'' then
        rolesToRemovePrevious levelRolesMap newLevel currentMemberRoles
      else [])"

text \<open>
  What the role block depends on besides the ledger: the configuration that
  \<open>guildConfigManager.getConfig(guildId)\<close> resolves to; whether the guild is in the client's
  cache; whether \<open>member.roles.add\<close> and \<open>member.roles.remove\<close> resolve (they reject on
  missing permissions, which the code catches and logs); and whether
  \<open>member.roles.cache\<close>, read after the awaited \<open>add\<close>, already shows the added roles (the
  member object is refreshed by Discord's member-update event, which may arrive before or
  after the call resolves).
  The role mutation itself is Discord's: on success the member holds the union with the
  added roles, respectively loses the removed ones.
\<close>

record levelUpEnv =
  envConfig :: GuildConfig
  guildCached :: bool
  addSucceeds :: bool
  removeSucceeds :: bool
  cacheRefreshed :: bool

definition effectiveStrategy :: "GuildConfig \<Rightarrow> string" where
  \<comment> \<open>\<^verbatim>\<open>config.roleRemovalStrategy || "keep_all"\<close>\<close>
  "effectiveStrategy config =
     (case roleRemovalStrategy config of
        None \<Rightarrow> ''keep_all''
      | Some v \<Rightarrow> if v = [] then ''keep_all'' else v)"

definition handleLevelUpRoles :: "levelUpEnv \<Rightarrow> ledger \<Rightarrow> string \<Rightarrow> string \<Rightarrow> int \<Rightarrow> int \<Rightarrow> ledger" where
  "handleLevelUpRoles env s g u oldLevel newLevel =
     (let levelRolesMap = (case levelRoles (envConfig env) of Some m \<Rightarrow> m | None \<Rightarrow> [])
      in if levelRolesMap = [] then s
         else if \<not> guildCached env then
           emit [ErrorEvent (''Role handling error on level up: Guild '' @ g @ '' not found in cache.'')] s
         else case memberRoles s (g, u) of
           None \<Rightarrow> s
         | Some held \<Rightarrow>
             (let toAdd = rolesToAdd levelRolesMap oldLevel newLevel held;
                  added = (toAdd \<noteq> [] \<and> addSucceeds env);
                  afterAdd = (if added then held @ toAdd else held);
                  s1 = (if added
                        then emit (map (RoleAwarded g u newLevel) toAdd)
                               (s\<lparr>memberRoles := (memberRoles s)((g, u) \<mapsto> afterAdd)\<rparr>)
                        else s);
                  strategy = effectiveStrategy (envConfig env)
              in if strategy = ''keep_all'' then s1
                 else
                   (let currentMemberRoles = (if cacheRefreshed env then afterAdd else held);
                        toRemove = rolesToRemove strategy levelRolesMap newLevel currentMemberRoles
                    in if toRemove \<noteq> [] \<and> removeSucceeds env
                       then emit (map (\<lambda>r. RoleRemoved g u newLevel r (''level_up_'' @ strategy)) toRemove)
                              (s1\<lparr>memberRoles := (memberRoles s1)((g, u) \<mapsto>
                                     filter (\<lambda>r. r \<notin> set toRemove) afterAdd)\<rparr>)
                       else s1)))"

section \<open>LevelingManager.addXP and LevelingManager.removeXP\<close>

record XPResult =
  resOldLevel :: int
  resNewLevel :: int
  resGainedXp :: int
  resUser :: UserLevel

text \<open>
  \<open>UserLevel.findOneAndUpdate({guildId, userId}, {$set: {xp, level}}, {new: true})\<close> has no
  upsert: it returns \<open>null\<close> when the document is gone, otherwise the updated document.
  \<open>updatedData = {...userData, ...updatedDataLean}\<close> is then the updated document, since
  every field of \<open>userData\<close> is also a field of the stored document.
  The result \<open>None\<close> is the \<open>null\<close> that the function returns.
\<close>

definition addXP ::
  "levelUpEnv \<Rightarrow> ledger \<Rightarrow> string \<Rightarrow> string \<Rightarrow> int \<Rightarrow> string \<Rightarrow> string + (ledger \<times> XPResult option)" where
  "addXP env s g u amount source =
     (if amount \<le> 0 then Inr (s, None)
      else case getUserLevelData s g u of
        Inl e \<Rightarrow> Inl e
      | Inr (s1, userData) \<Rightarrow>
          (let oldLevel = level userData;
               newXP = xp userData + amount;
               newLevel = getLevelFromXP newXP
           in case db s1 (g, u) of
                None \<Rightarrow>
                  Inr (emit [ErrorEvent (''Failed to update XP/Level for '' @ u @ ''@'' @ g)] s1,
                       Some \<lparr>resOldLevel = oldLevel, resNewLevel = oldLevel, resGainedXp = 0,
                             resUser = userData\<rparr>)
              | Some row \<Rightarrow>
                  (let updatedData = row\<lparr>xp := newXP, level := newLevel\<rparr>;
                       s2 = emit [XpGained g u amount source updatedData]
                              (s1\<lparr>db := (db s1)((g, u) \<mapsto> updatedData),
                                  cache := (cache s1)((g, u) \<mapsto> updatedData)\<rparr>);
                       s3 = (if newLevel > oldLevel
                             then handleLevelUpRoles env
                                    (emit [LevelUp g u oldLevel newLevel updatedData] s2)
                                    g u oldLevel newLevel
                             else s2)
                   in Inr (s3, Some \<lparr>resOldLevel = oldLevel, resNewLevel = newLevel,
                                     resGainedXp = amount, resUser = updatedData\<rparr>))))"

definition removeXP ::
  "ledger \<Rightarrow> string \<Rightarrow> string \<Rightarrow> int \<Rightarrow> string \<Rightarrow> string + (ledger \<times> UserLevel option)" where
  "removeXP s g u amount reason =
     (if amount \<le> 0 then Inr (s, None)
      else case getUserLevelData s g u of
        Inl e \<Rightarrow> Inl e
      | Inr (s1, userData) \<Rightarrow>
          (let oldLevel = level userData;
               newXP = max 0 (xp userData - amount);
               newLevel = getLevelFromXP newXP
           in case db s1 (g, u) of
                None \<Rightarrow>
                  Inr (emit [ErrorEvent (''Failed to remove XP for '' @ u @ ''@'' @ g)] s1, None)
              | Some row \<Rightarrow>
                  (let updatedData = row\<lparr>xp := newXP, level := newLevel\<rparr>;
                       s2 = emit [XpLost g u amount reason updatedData]
                              (s1\<lparr>db := (db s1)((g, u) \<mapsto> updatedData),
                                  cache := (cache s1)((g, u) \<mapsto> updatedData)\<rparr>);
                       s3 = (if newLevel < oldLevel
                             then emit [LevelDown g u oldLevel newLevel updatedData] s2
                             else s2)
                   in Inr (s3, Some updatedData))))"

text \<open>Concrete states for the worked examples: nothing stored, nothing configured.\<close>

definition emptyLedger :: ledger where
  "emptyLedger = \<lparr>db = Map.empty, cache = Map.empty, memberRoles = Map.empty, events = []\<rparr>"

definition noConfig :: GuildConfig where
  "noConfig = \<lparr>cfgGuildId = None, xpPerMessage = None, xpPerMinuteVoice = None,
     messageCooldownSeconds = None, roleMultipliers = None, channelMultipliers = None,
     ignoredRoles = None, ignoredChannels = None, levelUpMessageEnabled = None,
     levelRoles = None, roleRemovalStrategy = None, enablePenaltySystem = None,
     leaderboardStyle = None\<rparr>"

definition quietEnv :: levelUpEnv where
  "quietEnv = \<lparr>envConfig = noConfig, guildCached = True, addSucceeds = True,
     removeSucceeds = True, cacheRefreshed = True\<rparr>"

subsection \<open>Facts about the ledger operations\<close>

lemma emit_simps [simp]:
  "db (emit es s) = db s" "cache (emit es s) = cache s"
  "memberRoles (emit es s) = memberRoles s" "events (emit es s) = events s @ es"
  by (simp_all add: emit_def)

lemma handleLevelUpRoles_db [simp]: "db (handleLevelUpRoles env s g u ol nl) = db s"
  by (simp add: handleLevelUpRoles_def Let_def split: option.splits)

lemma handleLevelUpRoles_cache [simp]: "cache (handleLevelUpRoles env s g u ol nl) = cache s"
  by (simp add: handleLevelUpRoles_def Let_def split: option.splits)

lemma getUserLevelData_row:
  "getUserLevelData s g u = Inr (s1, d) \<Longrightarrow> cache s (g, u) = None \<or> db s (g, u) \<noteq> None \<Longrightarrow>
   db s1 (g, u) \<noteq> None"
  by (auto simp: getUserLevelData_def Let_def split: if_splits option.splits)

lemma getUserLevelData_fresh:
  "g \<noteq> [] \<Longrightarrow> u \<noteq> [] \<Longrightarrow> db s (g, u) = None \<Longrightarrow> cache s (g, u) = None \<Longrightarrow>
   getUserLevelData s g u =
     Inr (s\<lparr>db := (db s)((g, u) \<mapsto> zeroUser g u), cache := (cache s)((g, u) \<mapsto> zeroUser g u)\<rparr>,
          zeroUser g u)"
  by (simp add: getUserLevelData_def Let_def)

lemma getUserLevelData_cached:
  "g \<noteq> [] \<Longrightarrow> u \<noteq> [] \<Longrightarrow> cache s (g, u) = Some d \<Longrightarrow> getUserLevelData s g u = Inr (s, d)"
  by (simp add: getUserLevelData_def Let_def)

lemma addXP_applied:
  assumes "0 < amount" "getUserLevelData s g u = Inr (s1, d)" "db s1 (g, u) = Some row"
  shows "\<exists>s'. addXP env s g u amount src =
           Inr (s', Some \<lparr>resOldLevel = level d, resNewLevel = getLevelFromXP (xp d + amount),
                          resGainedXp = amount,
                          resUser = row\<lparr>xp := xp d + amount, level := getLevelFromXP (xp d + amount)\<rparr>\<rparr>) \<and>
         db s' = (db s1)((g, u) \<mapsto> row\<lparr>xp := xp d + amount, level := getLevelFromXP (xp d + amount)\<rparr>) \<and>
         cache s' = (cache s1)((g, u) \<mapsto> row\<lparr>xp := xp d + amount, level := getLevelFromXP (xp d + amount)\<rparr>)"
  using assms by (simp add: addXP_def Let_def)

lemma getUserLevelData_events:
  "getUserLevelData s g u = Inr (s1, d) \<Longrightarrow> events s1 = events s \<and> memberRoles s1 = memberRoles s"
  by (auto simp: getUserLevelData_def Let_def split: if_splits option.splits)

lemma level_at_155: "getLevelFromXP 155 = 1"
  using getLevelFromXP_exact [of 1 155] by (simp add: xpForLevel_def)

lemma level_at_100: "getLevelFromXP 100 = 0"
  using getLevelFromXP_exact [of 0 100] by (simp add: xpForLevel_def)

text \<open>
  Claim C8. For every non-positive amount, \<open>addXP\<close> (grantExperience) and \<open>removeXP\<close>
  (revokeExperience) return \<open>null\<close> at once: the collection, the cache, the members' roles
  and the event log are exactly what they were.
\<close>

theorem nonpositive_amount_rejected:
  "amount \<le> 0 \<Longrightarrow>
   addXP env s g u amount source = Inr (s, None) \<and> removeXP s g u amount reason = Inr (s, None)"
  by (simp add: addXP_def removeXP_def)

theorem nonpositive_amount_rejected_witness:
  "addXP quietEnv emptyLedger ''1'' ''2'' 0 ''message'' = Inr (emptyLedger, None) \<and>
   removeXP emptyLedger ''1'' ''2'' 0 ''penalty'' = Inr (emptyLedger, None)"
  using nonpositive_amount_rejected [of 0 quietEnv emptyLedger "''1''" "''2''" "''message''" "''penalty''"]
  by simp

text \<open>
  Claim C6. Granting is additive. For a fresh user (no stored document, no cache entry)
  and amounts \<open>a > 0\<close>, \<open>b > 0\<close>, granting \<open>a\<close> and then \<open>b\<close> leaves the same stored document,
  the same cache entry and the same returned user as granting \<open>a + b\<close> once, and the stored
  pair is \<open>(a + b, getLevelFromXP (a + b))\<close>. All three calls return a result (neither
  \<open>null\<close> nor an exception), whatever the role configuration of each call is.
\<close>

theorem grant_additive:
  assumes "0 < a" "0 < b" "g \<noteq> []" "u \<noteq> []" "db s (g, u) = None" "cache s (g, u) = None"
  shows "\<exists>s1 r1 s2 r2 s3 r3.
     addXP e1 s g u a src1 = Inr (s1, Some r1) \<and>
     addXP e2 s1 g u b src2 = Inr (s2, Some r2) \<and>
     addXP e3 s g u (a + b) src3 = Inr (s3, Some r3) \<and>
     db s2 (g, u) = db s3 (g, u) \<and> cache s2 (g, u) = cache s3 (g, u) \<and>
     resUser r2 = resUser r3 \<and>
     map_option (\<lambda>r. (xp r, level r)) (db s3 (g, u)) = Some (a + b, getLevelFromXP (a + b))"
proof -
  let ?s0 = "s\<lparr>db := (db s)((g, u) \<mapsto> zeroUser g u), cache := (cache s)((g, u) \<mapsto> zeroUser g u)\<rparr>"
  have read0: "getUserLevelData s g u = Inr (?s0, zeroUser g u)"
    using assms by (simp add: getUserLevelData_fresh)
  have row0: "db ?s0 (g, u) = Some (zeroUser g u)" by simp
  let ?ra = "(zeroUser g u)\<lparr>xp := a, level := getLevelFromXP a\<rparr>"
  let ?rab = "(zeroUser g u)\<lparr>xp := a + b, level := getLevelFromXP (a + b)\<rparr>"
  obtain s1 r1 where first: "addXP e1 s g u a src1 = Inr (s1, Some r1)"
    and db1: "db s1 = (db ?s0)((g, u) \<mapsto> ?ra)" and c1: "cache s1 = (cache ?s0)((g, u) \<mapsto> ?ra)"
    using addXP_applied [OF assms(1) read0 row0, of e1 src1] by (auto simp: zeroUser_def)
  have read1: "getUserLevelData s1 g u = Inr (s1, ?ra)"
    using assms c1 by (simp add: getUserLevelData_cached)
  have row1: "db s1 (g, u) = Some ?ra" using db1 by simp
  obtain s2 r2 where second: "addXP e2 s1 g u b src2 = Inr (s2, Some r2)"
    and db2: "db s2 (g, u) = Some ?rab" and c2: "cache s2 (g, u) = Some ?rab"
    and u2: "resUser r2 = ?rab"
    using addXP_applied [OF assms(2) read1 row1, of e2 src2] by (auto simp: zeroUser_def)
  have ab: "0 < a + b" using assms by simp
  obtain s3 r3 where once: "addXP e3 s g u (a + b) src3 = Inr (s3, Some r3)"
    and db3: "db s3 (g, u) = Some ?rab" and c3: "cache s3 (g, u) = Some ?rab"
    and u3: "resUser r3 = ?rab"
    using addXP_applied [OF ab read0 row0, of e3 src3] by (auto simp: zeroUser_def)
  show ?thesis
    using first second once db2 db3 c2 c3 u2 u3 by (intro exI [of _ s1] exI [of _ r1] exI [of _ s2] exI [of _ r2] exI [of _ s3] exI [of _ r3]) simp
qed

theorem grant_additive_witness:
  "\<exists>s1 r1 s2 r2 s3 r3.
     addXP quietEnv emptyLedger ''1'' ''2'' 100 ''message'' = Inr (s1, Some r1) \<and>
     addXP quietEnv s1 ''1'' ''2'' 55 ''voice'' = Inr (s2, Some r2) \<and>
     addXP quietEnv emptyLedger ''1'' ''2'' (100 + 55) ''plugin'' = Inr (s3, Some r3) \<and>
     db s2 (''1'', ''2'') = db s3 (''1'', ''2'') \<and> cache s2 (''1'', ''2'') = cache s3 (''1'', ''2'') \<and>
     resUser r2 = resUser r3 \<and>
     map_option (\<lambda>r. (xp r, level r)) (db s3 (''1'', ''2'')) = Some (155, 1)"
  using grant_additive [of 100 55 "''1''" "''2''" emptyLedger quietEnv "''message''" quietEnv
      "''voice''" quietEnv "''plugin''"] level_at_155
  by (simp add: emptyLedger_def)

text \<open>
  Claim C5. For every amount \<open>> 0\<close>, \<open>removeXP\<close> stores \<open>max 0 (xp - amount)\<close>, which is never
  negative, together with the level recomputed from it, in the collection and in the
  cache; it emits \<open>xpLost\<close>, followed by \<open>levelDown\<close> exactly when the new level is below the
  old one; and \<open>getLevelFromXP 0 = 0\<close>. Here \<open>xp\<close> and the old level are those of the record
  that \<open>getUserLevelData\<close> reads, and a cached record is assumed to have its stored document
  (otherwise the update finds nothing and \<open>removeXP\<close> returns \<open>null\<close>).
\<close>

theorem revoke_floors_at_zero:
  assumes "0 < amount" "getUserLevelData s g u = Inr (s1, d)"
    "cache s (g, u) = None \<or> db s (g, u) \<noteq> None"
  shows "\<exists>s' usr.
     removeXP s g u amount reason = Inr (s', Some usr) \<and>
     xp usr = max 0 (xp d - amount) \<and> 0 \<le> xp usr \<and>
     level usr = getLevelFromXP (xp usr) \<and>
     db s' (g, u) = Some usr \<and> cache s' (g, u) = Some usr \<and>
     events s' = events s @ XpLost g u amount reason usr #
        (if level usr < level d then [LevelDown g u (level d) (level usr) usr] else []) \<and>
     getLevelFromXP 0 = 0"
proof -
  obtain row where row: "db s1 (g, u) = Some row"
    using getUserLevelData_row [OF assms(2) assms(3)] by auto
  have ev: "events s1 = events s" using getUserLevelData_events [OF assms(2)] by simp
  let ?usr = "row\<lparr>xp := max 0 (xp d - amount), level := getLevelFromXP (max 0 (xp d - amount))\<rparr>"
  show ?thesis
    using assms(1,2) row ev
    by (auto simp: removeXP_def Let_def getLevelFromXP_zero)
qed

definition penaltyLedger :: ledger where
  "penaltyLedger =
     \<lparr>db = [(''1'', ''2'') \<mapsto> (zeroUser ''1'' ''2'')\<lparr>xp := 200, level := 1\<rparr>],
      cache = [(''1'', ''2'') \<mapsto> (zeroUser ''1'' ''2'')\<lparr>xp := 200, level := 1\<rparr>],
      memberRoles = Map.empty, events = []\<rparr>"

theorem revoke_floors_at_zero_witness:
  "\<exists>s' usr.
     removeXP penaltyLedger ''1'' ''2'' 100 ''penalty'' = Inr (s', Some usr) \<and>
     xp usr = 100 \<and> level usr = 0 \<and>
     db s' (''1'', ''2'') = Some usr \<and> cache s' (''1'', ''2'') = Some usr \<and>
     events s' = [XpLost ''1'' ''2'' 100 ''penalty'' usr, LevelDown ''1'' ''2'' 1 0 usr]"
proof -
  have read: "getUserLevelData penaltyLedger ''1'' ''2'' =
      Inr (penaltyLedger, (zeroUser ''1'' ''2'')\<lparr>xp := 200, level := 1\<rparr>)"
    by (simp add: getUserLevelData_def penaltyLedger_def)
  have coh: "cache penaltyLedger (''1'', ''2'') = None \<or> db penaltyLedger (''1'', ''2'') \<noteq> None"
    by (simp add: penaltyLedger_def)
  have pos: "(0::int) < 100" by simp
  from revoke_floors_at_zero [OF pos read coh, of "''penalty''"] level_at_100
  show ?thesis by (auto simp: penaltyLedger_def)
qed

section \<open>XPManager.handleMessageXP\<close>

text \<open>
  What the handler reads of a Discord message: \<open>message.guild\<close> and \<open>message.member\<close> may be
  \<open>null\<close> (\<open>None\<close>); a member is given by the ids of the roles in \<open>member.roles.cache\<close>.
\<close>

record message =
  authorBot :: bool
  msgGuild :: "string option"
  content :: string
  systemMessage :: bool
  memberRoleIds :: "string list option"
  authorId :: string
  channelId :: string

text \<open>
  \<^verbatim>\<open>
  let highestRoleMultiplier = 1.0;
  member.roles.cache.forEach((role) => {
    const multiplier = config.roleMultipliers.get(role.id);
    if (multiplier && multiplier > highestRoleMultiplier) highestRoleMultiplier = multiplier;
  });
  \<close>
  A number is truthy when it is not zero.
\<close>

definition highestRoleMultiplier :: "(string \<times> rat) list \<Rightarrow> string list \<Rightarrow> rat" where
  "highestRoleMultiplier roleMults roleIds =
     fold (\<lambda>roleId highest.
             case map_of roleMults roleId of
               None \<Rightarrow> highest
             | Some multiplier \<Rightarrow>
                 if multiplier \<noteq> 0 \<and> multiplier > highest then multiplier else highest)
          roleIds 1"

text \<open>
  \<^verbatim>\<open>
  let finalMultiplier = 1.0;
  if (config.roleMultipliers instanceof Map && config.roleMultipliers.size > 0) {
    ...
    finalMultiplier *= highestRoleMultiplier;
  }
  if (config.channelMultipliers instanceof Map && config.channelMultipliers.has(channelId)) {
    finalMultiplier *= config.channelMultipliers.get(channelId) || 1.0;
  }
  finalMultiplier = Math.max(0, finalMultiplier);
  const gainedXP = Math.max(1, Math.floor(baseXpPerMessage * finalMultiplier));
  \<close>
\<close>

definition messageMultiplier :: "GuildConfig \<Rightarrow> string list \<Rightarrow> string \<Rightarrow> rat" where
  "messageMultiplier config roleIds chan =
     (let afterRoles =
            (case roleMultipliers config of
               None \<Rightarrow> 1
             | Some roleMults \<Rightarrow>
                 if roleMults = [] then 1 else 1 * highestRoleMultiplier roleMults roleIds);
          afterChannel =
            (case channelMultipliers config of
               None \<Rightarrow> afterRoles
             | Some chanMults \<Rightarrow>
                 (case map_of chanMults chan of
                    None \<Rightarrow> afterRoles
                  | Some m \<Rightarrow> afterRoles * (if m = 0 then 1 else m)))
      in max 0 afterChannel)"

definition messageXP :: "GuildConfig \<Rightarrow> rat \<Rightarrow> string list \<Rightarrow> string \<Rightarrow> int" where
  "messageXP config baseXpPerMessage roleIds chan =
     max 1 \<lfloor>baseXpPerMessage * messageMultiplier config roleIds chan\<rfloor>"

text \<open>
  The cooldown test, \<open>now < lastTimestamp + cooldownMillis\<close> with
  \<open>cooldownMillis = (config.messageCooldownSeconds ?? 60) * 1000\<close>.
\<close>

definition cooldownMillis :: "GuildConfig \<Rightarrow> rat" where
  "cooldownMillis config =
     (case messageCooldownSeconds config of None \<Rightarrow> 60 | Some secs \<Rightarrow> secs) * 1000"

definition onCooldown :: "GuildConfig \<Rightarrow> UserLevel \<Rightarrow> int \<Rightarrow> bool" where
  "onCooldown config userData now =
     (of_int now < of_int (lastMessageTimestamp userData) + cooldownMillis config)"

text \<open>
  The checks before the cooldown test: the early return on bots, direct messages, empty
  content, system messages and missing members; a base rate \<open>config.xpPerMessage ?? 0\<close> that
  is not positive; an ignored channel; a member holding an ignored role.
\<close>

definition baseXpPerMessage :: "GuildConfig \<Rightarrow> rat" where
  "baseXpPerMessage config = (case xpPerMessage config of None \<Rightarrow> 0 | Some v \<Rightarrow> v)"

definition inList :: "string list option \<Rightarrow> string \<Rightarrow> bool" where
  \<comment> \<open>\<^verbatim>\<open>list?.includes(x)\<close>, falsy when the list is missing\<close>
  "inList l x = (case l of None \<Rightarrow> False | Some xs \<Rightarrow> x \<in> set xs)"

definition ignoredByConfig :: "GuildConfig \<Rightarrow> string list \<Rightarrow> string \<Rightarrow> bool" where
  "ignoredByConfig config roleIds chan =
     (baseXpPerMessage config \<le> 0 \<or> inList (ignoredChannels config) chan \<or>
      list_ex (inList (ignoredRoles config)) roleIds)"

text \<open>
  \<open>UserLevel.updateOne({guildId, userId}, {$set: {lastMessageTimestamp: now},
  $inc: {totalMessages: 1}})\<close> followed by \<open>cacheManager.del(cacheKey)\<close>.
\<close>

definition touchMessageStats :: "ledger \<Rightarrow> string \<Rightarrow> string \<Rightarrow> int \<Rightarrow> ledger" where
  "touchMessageStats s g u now =
     s\<lparr>db := (case db s (g, u) of
                 None \<Rightarrow> db s
               | Some row \<Rightarrow> (db s)((g, u) \<mapsto>
                   row\<lparr>lastMessageTimestamp := now, totalMessages := totalMessages row + 1\<rparr>)),
        cache := (cache s)((g, u) := None)\<rparr>"

text \<open>
  The handler. Its configuration is the one of the environment, since \<open>addXP\<close> asks
  \<open>getConfig\<close> for the same guild. An exception inside the \<open>try\<close> block ends in the
  \<open>error\<close> event of the \<open>catch\<close> block.

  The handler is asynchronous. Everything up to the cooldown test and the computation of
  \<open>gainedXP\<close> runs before the handler suspends at
  \<open>await UserLevel.updateOne(...)\<close>; the timestamp update, the cache eviction and \<open>addXP\<close>
  come after. Another handler may run in between. The first part is \<open>checkMessageXP\<close>: it
  returns the state it leaves and, when the message is to be granted, the local variables
  the handler carries over the \<open>await\<close> (guild, user, \<open>now\<close>, \<open>gainedXP\<close>). The second part
  is \<open>commitMessageXP\<close>, which works on the state as it is when the handler resumes.
  \<open>handleMessageXP\<close> is a handler that nothing interrupts.
\<close>

datatype pendingGrant = PendingGrant string string int int

definition checkMessageXP ::
  "levelUpEnv \<Rightarrow> ledger \<Rightarrow> int \<Rightarrow> message \<Rightarrow> ledger \<times> pendingGrant option" where
  "checkMessageXP env s now msg =
     (case (msgGuild msg, memberRoleIds msg) of
        (Some g, Some roleIds) \<Rightarrow>
          if authorBot msg \<or> content msg = [] \<or> systemMessage msg then (s, None)
          else if g = [] then
            (emit [ErrorEvent (''Message XP handling error: '' @
                    ''[GuildConfigManager] guildId diperlukan untuk getConfig.'')] s, None)
          else if ignoredByConfig (envConfig env) roleIds (channelId msg) then (s, None)
          else
            (case getUserLevelData s g (authorId msg) of
               Inl e \<Rightarrow> (emit [ErrorEvent (''Message XP handling error: '' @ e)] s, None)
             | Inr (s1, userData) \<Rightarrow>
                 if onCooldown (envConfig env) userData now then (s1, None)
                 else
                   (let gainedXP = messageXP (envConfig env) (baseXpPerMessage (envConfig env))
                                     roleIds (channelId msg)
                    in (s1, Some (PendingGrant g (authorId msg) now gainedXP))))
      | _ \<Rightarrow> (s, None))"

fun commitMessageXP :: "levelUpEnv \<Rightarrow> ledger \<Rightarrow> pendingGrant \<Rightarrow> ledger" where
  "commitMessageXP env s (PendingGrant g u now gainedXP) =
     (let s2 = touchMessageStats s g u now
      in case addXP env s2 g u gainedXP ''message'' of
           Inl e \<Rightarrow> emit [ErrorEvent (''Message XP handling error: '' @ e)] s2
         | Inr (s3, r) \<Rightarrow> s3)"

definition handleMessageXP :: "levelUpEnv \<Rightarrow> ledger \<Rightarrow> int \<Rightarrow> message \<Rightarrow> ledger" where
  "handleMessageXP env s now msg =
     (case checkMessageXP env s now msg of
        (s1, None) \<Rightarrow> s1
      | (s1, Some pending) \<Rightarrow> commitMessageXP env s1 pending)"

text \<open>
  Two handlers that interleave at that \<open>await\<close>: the second message arrives while the
  first handler waits for its timestamp update, so both run their first part before
  either runs its second.
\<close>

definition interleavedMessages ::
  "levelUpEnv \<Rightarrow> ledger \<Rightarrow> int \<Rightarrow> message \<Rightarrow> int \<Rightarrow> message \<Rightarrow> ledger" where
  "interleavedMessages env s t1 m1 t2 m2 =
     (case checkMessageXP env s t1 m1 of
        (sa, p1) \<Rightarrow>
          (case checkMessageXP env sa t2 m2 of
             (sb, p2) \<Rightarrow>
               (let sc = (case p1 of None \<Rightarrow> sb | Some pending \<Rightarrow> commitMessageXP env sb pending)
                in case p2 of None \<Rightarrow> sc | Some pending \<Rightarrow> commitMessageXP env sc pending)))"

text \<open>
  For comparison only, the amount as the specification words it: the maximum of the
  multipliers configured for the member's roles (1 when none is configured), times the
  channel's multiplier when it has one, clamped at 0; then
  \<open>max(1, floor(baseRate * multiplier))\<close>.
\<close>

definition spec_roleMultiplier :: "(string \<times> rat) list \<Rightarrow> string list \<Rightarrow> rat" where
  "spec_roleMultiplier roleMults roleIds =
     (case List.map_filter (map_of roleMults) roleIds of
        [] \<Rightarrow> 1
      | m # ms \<Rightarrow> fold max ms m)"

definition spec_messageXP :: "GuildConfig \<Rightarrow> rat \<Rightarrow> string list \<Rightarrow> string \<Rightarrow> int" where
  "spec_messageXP config baseRate roleIds chan =
     (let roleMult = (case roleMultipliers config of
                        None \<Rightarrow> 1 | Some roleMults \<Rightarrow> spec_roleMultiplier roleMults roleIds);
          chanMult = (case channelMultipliers config of
                        None \<Rightarrow> 1
                      | Some chanMults \<Rightarrow>
                          (case map_of chanMults chan of None \<Rightarrow> 1 | Some m \<Rightarrow> m))
      in max 1 \<lfloor>baseRate * max 0 (roleMult * chanMult)\<rfloor>)"

subsection \<open>Counting grants; messages that pass the checks\<close>

text \<open>
  A grant is an \<open>xpGained\<close> event: \<open>addXP\<close> emits exactly one for every amount it applies.
  A message is \<open>eligible\<close> when it passes every check that precedes the cooldown test
  (and carries non-empty guild and author ids, as Discord's always are).
\<close>

fun isXpGained :: "event \<Rightarrow> bool" where
  "isXpGained (XpGained g u amount source newData) = True"
| "isXpGained e = False"

definition grantCount :: "ledger \<Rightarrow> nat" where
  "grantCount s = length (filter isXpGained (events s))"

definition eligible :: "levelUpEnv \<Rightarrow> message \<Rightarrow> bool" where
  "eligible env msg =
     (case (msgGuild msg, memberRoleIds msg) of
        (Some g, Some roleIds) \<Rightarrow>
          \<not> authorBot msg \<and> content msg \<noteq> [] \<and> \<not> systemMessage msg \<and> g \<noteq> [] \<and>
          authorId msg \<noteq> [] \<and> \<not> ignoredByConfig (envConfig env) roleIds (channelId msg)
      | _ \<Rightarrow> False)"

text \<open>Concrete inputs for the worked examples.\<close>

definition chatEnv :: levelUpEnv where
  "chatEnv = quietEnv\<lparr>envConfig := noConfig\<lparr>xpPerMessage := Some 15, messageCooldownSeconds := Some 60\<rparr>\<rparr>"

definition hello :: message where
  "hello = \<lparr>authorBot = False, msgGuild = Some ''1'', content = ''hello'', systemMessage = False,
     memberRoleIds = Some [], authorId = ''2'', channelId = ''77''\<rparr>"

definition halfRoleConfig :: GuildConfig where
  "halfRoleConfig = noConfig\<lparr>xpPerMessage := Some 15, roleMultipliers := Some [(''900'', 1 / 2)]\<rparr>"

definition halfEnv :: levelUpEnv where
  "halfEnv = quietEnv\<lparr>envConfig := halfRoleConfig\<rparr>"

definition vipHello :: message where
  "vipHello = hello\<lparr>memberRoleIds := Some [''900'']\<rparr>"

subsection \<open>Facts about the message handler\<close>

lemma grantCount_emit: "grantCount (emit es s) = grantCount s + length (filter isXpGained es)"
  by (simp add: grantCount_def)

lemma no_grant_in_role_events:
  "filter isXpGained (map (RoleAwarded g u n) rs) = []"
  "filter isXpGained (map (\<lambda>r. RoleRemoved g u n r why) rs) = []"
  by (induction rs) simp_all

lemma grantCount_update [simp]:
  "grantCount (s\<lparr>memberRoles := mr\<rparr>) = grantCount s"
  "grantCount (s\<lparr>db := d\<rparr>) = grantCount s"
  "grantCount (s\<lparr>cache := c\<rparr>) = grantCount s"
  by (simp_all add: grantCount_def)

lemma grantCount_handleLevelUpRoles:
  "grantCount (handleLevelUpRoles env s g u ol nl) = grantCount s"
  by (simp add: handleLevelUpRoles_def Let_def grantCount_emit no_grant_in_role_events
      split: option.splits)

lemma addXP_grantCount:
  assumes "0 < amount" "getUserLevelData s g u = Inr (s1, d)" "db s1 (g, u) = Some row"
    and "addXP env s g u amount src = Inr (s', r)"
  shows "grantCount s' = grantCount s1 + 1"
  using assms
  by (auto simp: addXP_def Let_def grantCount_emit grantCount_handleLevelUpRoles)

lemma messageXP_pos: "0 < messageXP config b roleIds chan"
  by (simp add: messageXP_def)

lemma getUserLevelData_grantCount:
  "getUserLevelData s g u = Inr (s1, d) \<Longrightarrow> grantCount s1 = grantCount s"
  using getUserLevelData_events [of s g u s1 d] by (simp add: grantCount_def)

lemma handleMessageXP_unfold:
  assumes "eligible env msg" "msgGuild msg = Some g" "authorId msg = u"
    and "getUserLevelData s g u = Inr (s1, d)"
  shows "handleMessageXP env s now msg =
     (if onCooldown (envConfig env) d now then s1
      else case addXP env (touchMessageStats s1 g u now) g u
                  (messageXP (envConfig env) (baseXpPerMessage (envConfig env))
                     (case memberRoleIds msg of Some rs \<Rightarrow> rs | None \<Rightarrow> []) (channelId msg)) ''message'' of
             Inl e \<Rightarrow> emit [ErrorEvent (''Message XP handling error: '' @ e)] (touchMessageStats s1 g u now)
           | Inr (s3, r) \<Rightarrow> s3)"
  using assms
  by (auto simp: handleMessageXP_def checkMessageXP_def eligible_def Let_def split: option.splits)

lemma handleMessageXP_granted:
  assumes el: "eligible env msg" "msgGuild msg = Some g" "authorId msg = u"
    and roles: "memberRoleIds msg = Some roleIds"
    and read: "getUserLevelData s g u = Inr (s1, d)"
    and row: "db s1 (g, u) = Some row"
    and ncd: "\<not> onCooldown (envConfig env) d now"
    and gained: "gained = messageXP (envConfig env) (baseXpPerMessage (envConfig env)) roleIds
                   (channelId msg)"
  shows "db (handleMessageXP env s now msg) (g, u) =
       Some (row\<lparr>xp := xp row + gained, level := getLevelFromXP (xp row + gained),
                 lastMessageTimestamp := now, totalMessages := totalMessages row + 1\<rparr>) \<and>
     cache (handleMessageXP env s now msg) (g, u) = db (handleMessageXP env s now msg) (g, u) \<and>
     grantCount (handleMessageXP env s now msg) = grantCount s + 1"
proof -
  have pos: "0 < gained" by (simp add: gained messageXP_pos)
  define s2 where "s2 = touchMessageStats s1 g u now"
  define row2 where "row2 = row\<lparr>lastMessageTimestamp := now, totalMessages := totalMessages row + 1\<rparr>"
  have ids: "g \<noteq> []" "u \<noteq> []"
    using el by (auto simp: eligible_def split: option.splits)
  have db2: "db s2 (g, u) = Some row2" and c2: "cache s2 (g, u) = None"
    using row by (simp_all add: s2_def row2_def touchMessageStats_def)
  have ev2: "grantCount s2 = grantCount s"
    using getUserLevelData_grantCount [OF read] by (simp add: s2_def touchMessageStats_def)
  let ?s2r = "s2\<lparr>db := (db s2)((g, u) \<mapsto> row2), cache := (cache s2)((g, u) \<mapsto> row2)\<rparr>"
  have read2: "getUserLevelData s2 g u = Inr (?s2r, row2)"
    using ids db2 c2 by (simp add: getUserLevelData_def Let_def)
  have rowr: "db ?s2r (g, u) = Some row2" by simp
  obtain s3 r where add: "addXP env s2 g u gained ''message'' = Inr (s3, r)"
    and db3: "db s3 (g, u) = Some (row2\<lparr>xp := xp row2 + gained, level := getLevelFromXP (xp row2 + gained)\<rparr>)"
    and c3: "cache s3 (g, u) = Some (row2\<lparr>xp := xp row2 + gained, level := getLevelFromXP (xp row2 + gained)\<rparr>)"
    using addXP_applied [OF pos read2 rowr, of env "''message''"] by auto
  have g3: "grantCount s3 = grantCount s + 1"
    using addXP_grantCount [OF pos read2 rowr add] ev2 by simp
  have res: "handleMessageXP env s now msg = s3"
    using handleMessageXP_unfold [OF el read, of now] ncd add roles
    by (simp add: gained s2_def)
  show ?thesis
    using db3 c3 g3 res by (simp add: row2_def)
qed

lemma onCooldown_iff:
  "onCooldown config d now \<longleftrightarrow>
     of_int now < of_int (lastMessageTimestamp d) +
       (case messageCooldownSeconds config of None \<Rightarrow> 60 | Some secs \<Rightarrow> secs) * 1000"
  by (simp add: onCooldown_def cooldownMillis_def)

lemma two_messages_grants:
  assumes el1: "eligible env m1" "msgGuild m1 = Some g" "authorId m1 = u"
    and el2: "eligible env m2" "msgGuild m2 = Some g" "authorId m2 = u"
    and roles: "memberRoleIds m1 = Some r1" "memberRoleIds m2 = Some r2"
    and cd: "messageCooldownSeconds (envConfig env) = Some secs"
    and fresh: "db s0 (g, u) = None" "cache s0 (g, u) = None"
    and t: "secs * 1000 \<le> of_int t"
    and g1: "g1 = messageXP (envConfig env) (baseXpPerMessage (envConfig env)) r1 (channelId m1)"
    and g2: "g2 = messageXP (envConfig env) (baseXpPerMessage (envConfig env)) r2 (channelId m2)"
  shows "grantCount (handleMessageXP env (handleMessageXP env s0 t m1) t' m2) =
           grantCount s0 + (if of_int t' < of_int t + secs * 1000 then 1 else 2) \<and>
         map_option xp (db (handleMessageXP env (handleMessageXP env s0 t m1) t' m2) (g, u)) =
           Some (if of_int t' < of_int t + secs * 1000 then g1 else g1 + g2)"
proof -
  have ids: "g \<noteq> []" "u \<noteq> []"
    using el1 by (auto simp: eligible_def split: option.splits)
  let ?s0 = "s0\<lparr>db := (db s0)((g, u) \<mapsto> zeroUser g u), cache := (cache s0)((g, u) \<mapsto> zeroUser g u)\<rparr>"
  have read0: "getUserLevelData s0 g u = Inr (?s0, zeroUser g u)"
    using ids fresh by (simp add: getUserLevelData_fresh)
  have row0: "db ?s0 (g, u) = Some (zeroUser g u)" by simp
  have ncd0: "\<not> onCooldown (envConfig env) (zeroUser g u) t"
    using t cd by (simp add: onCooldown_iff zeroUser_def)
  define sA where "sA = handleMessageXP env s0 t m1"
  define rowA where "rowA = (zeroUser g u)\<lparr>xp := xp (zeroUser g u) + g1,
      level := getLevelFromXP (xp (zeroUser g u) + g1),
      lastMessageTimestamp := t, totalMessages := totalMessages (zeroUser g u) + 1\<rparr>"
  have dbA: "db sA (g, u) = Some rowA" and cA: "cache sA (g, u) = Some rowA"
    and gA: "grantCount sA = grantCount s0 + 1"
    using handleMessageXP_granted [OF el1 roles(1) read0 row0 ncd0 g1]
    by (simp_all add: sA_def rowA_def)
  have lastA: "lastMessageTimestamp rowA = t" and xpA: "xp rowA = g1"
    by (simp_all add: rowA_def zeroUser_def)
  have read1: "getUserLevelData sA g u = Inr (sA, rowA)"
    using ids cA by (simp add: getUserLevelData_cached)
  have cdA: "onCooldown (envConfig env) rowA t' \<longleftrightarrow> of_int t' < of_int t + secs * 1000"
    using cd lastA by (simp add: onCooldown_iff)
  show ?thesis
  proof (cases "of_int t' < of_int t + secs * 1000")
    case True
    then have "handleMessageXP env sA t' m2 = sA"
      using handleMessageXP_unfold [OF el2 read1, of t'] cdA by simp
    with True gA dbA xpA show ?thesis by (simp add: sA_def)
  next
    case False
    then have "\<not> onCooldown (envConfig env) rowA t'" using cdA by simp
    from handleMessageXP_granted [OF el2 roles(2) read1 dbA this g2]
    have "grantCount (handleMessageXP env sA t' m2) = grantCount sA + 1"
      "map_option xp (db (handleMessageXP env sA t' m2) (g, u)) = Some (xp rowA + g2)"
      by simp_all
    with False gA xpA show ?thesis by (simp add: sA_def)
  qed
qed

lemma eligible_hello: "eligible chatEnv hello"
  by (simp add: eligible_def chatEnv_def hello_def quietEnv_def noConfig_def ignoredByConfig_def
      baseXpPerMessage_def inList_def)

text \<open>
  Claim C2, evaluated on the code. A member whose only configured role multiplier is
  \<open>0.5\<close> sends a message at base rate 15 in a channel without multiplier. The handler
  grants 15 points (the single \<open>xpGained\<close> event of the run carries 15):
  \<open>highestRoleMultiplier\<close> starts at \<open>1.0\<close> and is only ever raised, so a configured
  multiplier below 1 is ignored. The amount as the claim words it, with the
  maximum configured multiplier \<open>0.5\<close>, is \<open>max(1, floor(15 * 0.5)) = 7\<close>. The part of the
  claim that every eligible message yields at least one point does hold.
\<close>

theorem role_multiplier_below_one_ignored:
  "messageXP halfRoleConfig 15 [''900''] ''77'' = 15 \<and>
   spec_messageXP halfRoleConfig 15 [''900''] ''77'' = 7 \<and>
   events (handleMessageXP halfEnv emptyLedger 1700000000000 vipHello) =
     [XpGained ''1'' ''2'' 15 ''message''
        ((zeroUser ''1'' ''2'')\<lparr>xp := 15, lastMessageTimestamp := 1700000000000,
                                  totalMessages := 1\<rparr>)] \<and>
   1 \<le> messageXP config baseRate roleIds chan"
proof (intro conjI)
  show "messageXP halfRoleConfig 15 [''900''] ''77'' = 15" by code_simp
  show "spec_messageXP halfRoleConfig 15 [''900''] ''77'' = 7" by code_simp
  show "events (handleMessageXP halfEnv emptyLedger 1700000000000 vipHello) =
     [XpGained ''1'' ''2'' 15 ''message''
        ((zeroUser ''1'' ''2'')\<lparr>xp := 15, lastMessageTimestamp := 1700000000000,
                                  totalMessages := 1\<rparr>)]"
    by code_simp
  show "1 \<le> messageXP config baseRate roleIds chan" by (simp add: messageXP_def)
qed

text \<open>
  Claim C4 (as amended). For a message that passes the earlier checks, the handler
  rejects it on cooldown exactly when
  \<open>now < lastMessageTimestamp + cooldownSeconds * 1000\<close>, a strict inequality, where
  \<open>cooldownSeconds\<close> is the configured \<open>messageCooldownSeconds\<close> (60 when none is configured)
  and \<open>lastMessageTimestamp\<close> is that of the record the handler reads: then it leaves the
  state as the read left it and grants nothing; otherwise it grants once, adding
  \<open>messageXP\<close> (at least 1) to the stored experience, recomputing the level and storing
  \<open>now\<close> as the new \<open>lastMessageTimestamp\<close>.
  When the second handler runs after the first has finished, a fresh user's first message
  at \<open>t\<close> and a second at \<open>t'\<close> yield one grant when \<open>t' < t + cooldownSeconds * 1000\<close> and
  two otherwise, and the stored experience is the first amount, respectively the sum of
  both: with a 60 second cooldown, one grant for messages 1 ms apart and two for messages
  61 s apart. (The first message of a fresh user is granted because its
  \<open>lastMessageTimestamp\<close> is 0 and the clock is past the cooldown.)
\<close>

theorem message_cooldown_strict:
  assumes "eligible env m1" "eligible env m2" "msgGuild m1 = Some g" "msgGuild m2 = Some g"
    "authorId m1 = u" "authorId m2 = u" "memberRoleIds m1 = Some r1" "memberRoleIds m2 = Some r2"
    "g1 = messageXP (envConfig env) (baseXpPerMessage (envConfig env)) r1 (channelId m1)"
    "g2 = messageXP (envConfig env) (baseXpPerMessage (envConfig env)) r2 (channelId m2)"
  shows "(getUserLevelData s g u = Inr (s1, d) \<and> db s1 (g, u) = Some row \<longrightarrow>
            (if of_int now < of_int (lastMessageTimestamp d) +
                  (case messageCooldownSeconds (envConfig env) of
                     None \<Rightarrow> 60 | Some secs \<Rightarrow> secs) * 1000
             then handleMessageXP env s now m1 = s1 \<and> grantCount s1 = grantCount s
             else grantCount (handleMessageXP env s now m1) = grantCount s + 1 \<and> 1 \<le> g1 \<and>
                  db (handleMessageXP env s now m1) (g, u) =
                    Some (row\<lparr>xp := xp row + g1, level := getLevelFromXP (xp row + g1),
                              lastMessageTimestamp := now,
                              totalMessages := totalMessages row + 1\<rparr>))) \<and>
         (messageCooldownSeconds (envConfig env) = Some secs \<and> db s0 (g, u) = None \<and>
          cache s0 (g, u) = None \<and> secs * 1000 \<le> of_int t \<longrightarrow>
            grantCount (handleMessageXP env (handleMessageXP env s0 t m1) t' m2) =
              grantCount s0 + (if of_int t' < of_int t + secs * 1000 then 1 else 2) \<and>
            map_option xp (db (handleMessageXP env (handleMessageXP env s0 t m1) t' m2) (g, u)) =
              Some (if of_int t' < of_int t + secs * 1000 then g1 else g1 + g2)) \<and>
         (messageCooldownSeconds (envConfig env) = Some 60 \<and> db s0 (g, u) = None \<and>
          cache s0 (g, u) = None \<and> 60000 \<le> t \<longrightarrow>
            grantCount (handleMessageXP env (handleMessageXP env s0 t m1) (t + 1) m2) =
              grantCount s0 + 1 \<and>
            grantCount (handleMessageXP env (handleMessageXP env s0 t m1) (t + 61000) m2) =
              grantCount s0 + 2)"
proof (intro conjI impI)
  assume a: "getUserLevelData s g u = Inr (s1, d) \<and> db s1 (g, u) = Some row"
  then have read: "getUserLevelData s g u = Inr (s1, d)" and row: "db s1 (g, u) = Some row"
    by simp_all
  show "if of_int now < of_int (lastMessageTimestamp d) +
                  (case messageCooldownSeconds (envConfig env) of
                     None \<Rightarrow> 60 | Some secs \<Rightarrow> secs) * 1000
     then handleMessageXP env s now m1 = s1 \<and> grantCount s1 = grantCount s
     else grantCount (handleMessageXP env s now m1) = grantCount s + 1 \<and> 1 \<le> g1 \<and>
          db (handleMessageXP env s now m1) (g, u) =
            Some (row\<lparr>xp := xp row + g1, level := getLevelFromXP (xp row + g1),
                      lastMessageTimestamp := now,
                      totalMessages := totalMessages row + 1\<rparr>)"
  proof (cases "onCooldown (envConfig env) d now")
    case True
    then show ?thesis
      using handleMessageXP_unfold [OF assms(1,3,5) read, of now] getUserLevelData_grantCount [OF read]
      by (simp add: onCooldown_iff)
  next
    case False
    have "1 \<le> g1" unfolding assms(9) by (simp add: messageXP_def)
    with handleMessageXP_granted [OF assms(1,3,5,7) read row False assms(9)] False
    show ?thesis by (simp add: onCooldown_iff)
  qed
next
  assume b: "messageCooldownSeconds (envConfig env) = Some secs \<and> db s0 (g, u) = None \<and>
          cache s0 (g, u) = None \<and> secs * 1000 \<le> of_int t"
  from two_messages_grants [OF assms(1,3,5) assms(2,4,6) assms(7,8) _ _ _ _ assms(9,10), of secs s0 t t'] b
  show "grantCount (handleMessageXP env (handleMessageXP env s0 t m1) t' m2) =
              grantCount s0 + (if of_int t' < of_int t + secs * 1000 then 1 else 2)"
    "map_option xp (db (handleMessageXP env (handleMessageXP env s0 t m1) t' m2) (g, u)) =
              Some (if of_int t' < of_int t + secs * 1000 then g1 else g1 + g2)"
    by simp_all
next
  assume c: "messageCooldownSeconds (envConfig env) = Some 60 \<and> db s0 (g, u) = None \<and>
          cache s0 (g, u) = None \<and> 60000 \<le> t"
  then have t: "(60::rat) * 1000 \<le> of_int t"
  proof -
    have "(of_int 60000 :: rat) \<le> of_int t" using c by (simp only: of_int_le_iff)
    then show ?thesis by simp
  qed
  note two = two_messages_grants [OF assms(1,3,5) assms(2,4,6) assms(7,8) _ _ _ t assms(9,10), of s0]
  have lt: "(of_int (t + 1) :: rat) < of_int t + 60 * 1000"
  proof -
    have "(of_int (t + 1) :: rat) < of_int (t + 60000)" by simp
    then show ?thesis by simp
  qed
  have ge: "\<not> (of_int (t + 61000) :: rat) < of_int t + 60 * 1000"
  proof -
    have "\<not> (of_int (t + 61000) :: rat) < of_int (t + 60000)" by simp
    then show ?thesis by simp
  qed
  show "grantCount (handleMessageXP env (handleMessageXP env s0 t m1) (t + 1) m2) = grantCount s0 + 1"
    using two [of "t + 1"] c lt by simp
  show "grantCount (handleMessageXP env (handleMessageXP env s0 t m1) (t + 61000) m2) = grantCount s0 + 2"
    using two [of "t + 61000"] c ge by simp
qed

lemma hello_amount:
  "messageXP (envConfig chatEnv) (baseXpPerMessage (envConfig chatEnv)) [] (channelId hello) = 15"
  by code_simp

theorem message_cooldown_strict_witness:
  "handleMessageXP chatEnv penaltyLedger 59999 hello = penaltyLedger \<and>
   grantCount (handleMessageXP chatEnv penaltyLedger 60000 hello) = 1 \<and>
   map_option xp (db (handleMessageXP chatEnv penaltyLedger 60000 hello) (''1'', ''2'')) = Some 215 \<and>
   grantCount (handleMessageXP chatEnv (handleMessageXP chatEnv emptyLedger 1700000000000 hello)
      1700000000001 hello) = 1 \<and>
   map_option xp (db (handleMessageXP chatEnv (handleMessageXP chatEnv emptyLedger 1700000000000 hello)
      1700000000001 hello) (''1'', ''2'')) = Some 15 \<and>
   grantCount (handleMessageXP chatEnv (handleMessageXP chatEnv emptyLedger 1700000000000 hello)
      1700000061000 hello) = 2 \<and>
   map_option xp (db (handleMessageXP chatEnv (handleMessageXP chatEnv emptyLedger 1700000000000 hello)
      1700000061000 hello) (''1'', ''2'')) = Some 30"
proof -
  have g: "msgGuild hello = Some ''1''" and u: "authorId hello = ''2''"
    and r: "memberRoleIds hello = Some []"
    by (simp_all add: hello_def)
  have read: "getUserLevelData penaltyLedger ''1'' ''2'' =
      Inr (penaltyLedger, (zeroUser ''1'' ''2'')\<lparr>xp := 200, level := 1\<rparr>)"
    by (simp add: getUserLevelData_def penaltyLedger_def)
  have row: "db penaltyLedger (''1'', ''2'') = Some ((zeroUser ''1'' ''2'')\<lparr>xp := 200, level := 1\<rparr>)"
    by (simp add: penaltyLedger_def)
  have cfg: "messageCooldownSeconds (envConfig chatEnv) = Some 60"
    by (simp add: chatEnv_def quietEnv_def noConfig_def)
  have zero: "grantCount penaltyLedger = 0" "grantCount emptyLedger = 0"
    by (simp_all add: grantCount_def penaltyLedger_def emptyLedger_def)
  have fresh: "db emptyLedger (''1'', ''2'') = None" "cache emptyLedger (''1'', ''2'') = None"
    by (simp_all add: emptyLedger_def)
  have amount: "15 = messageXP (envConfig chatEnv) (baseXpPerMessage (envConfig chatEnv)) []
      (channelId hello)"
    by (simp add: hello_amount)
  note inst = message_cooldown_strict [OF eligible_hello eligible_hello g g u u r r amount amount,
      where s = penaltyLedger and ?s1.0 = penaltyLedger
        and d = "(zeroUser ''1'' ''2'')\<lparr>xp := 200, level := 1\<rparr>"
        and row = "(zeroUser ''1'' ''2'')\<lparr>xp := 200, level := 1\<rparr>"
        and ?s0.0 = emptyLedger and t = 1700000000000 and secs = 60]
  have a: "handleMessageXP chatEnv penaltyLedger 59999 hello = penaltyLedger"
    using inst [of 59999 0] read row cfg by (simp add: zeroUser_def)
  have b: "grantCount (handleMessageXP chatEnv penaltyLedger 60000 hello) = 1"
    "map_option xp (db (handleMessageXP chatEnv penaltyLedger 60000 hello) (''1'', ''2'')) = Some 215"
    using inst [of 60000 0] read row cfg zero by (simp_all add: zeroUser_def)
  have c: "grantCount (handleMessageXP chatEnv (handleMessageXP chatEnv emptyLedger 1700000000000 hello)
      1700000000001 hello) = 1"
    "map_option xp (db (handleMessageXP chatEnv (handleMessageXP chatEnv emptyLedger 1700000000000 hello)
      1700000000001 hello) (''1'', ''2'')) = Some 15"
    using inst [of 0 1700000000001] cfg zero fresh by simp_all
  have d: "grantCount (handleMessageXP chatEnv (handleMessageXP chatEnv emptyLedger 1700000000000 hello)
      1700000061000 hello) = 2"
    "map_option xp (db (handleMessageXP chatEnv (handleMessageXP chatEnv emptyLedger 1700000000000 hello)
      1700000061000 hello) (''1'', ''2'')) = Some 30"
    using inst [of 0 1700000061000] cfg zero fresh by simp_all
  from a b c d show ?thesis by simp
qed

text \<open>
  The claim as written promises exactly one grant for two messages 1 ms apart, whatever
  the timing of their handlers. When the second message is handled while the first
  handler waits for its timestamp update, the second handler still reads the old
  \<open>lastMessageTimestamp\<close> and passes the cooldown test too: both messages are granted, and
  the stored experience is twice the amount.
\<close>

theorem interleaved_messages_counterexample:
  "grantCount (interleavedMessages chatEnv emptyLedger 1700000000000 hello 1700000000001 hello) = 2 \<and>
   map_option xp (db (interleavedMessages chatEnv emptyLedger 1700000000000 hello 1700000000001 hello)
      (''1'', ''2'')) = Some 30 \<and>
   grantCount (interleavedMessages chatEnv emptyLedger 1700000000000 hello 1700000000001 hello) \<noteq> 1"
  by code_simp

section \<open>The role reward rules\<close>

text \<open>
  The worked example of the specification: rewards \<open>{5: A, 10: B, 15: C}\<close>, strategy
  \<open>remove_previous\<close>, a member who holds no reward role and jumps from level 4 to level 12.
  The flag says whether the member's role cache is refreshed before the removal list is
  computed.
\<close>

definition exampleRewards :: "(int \<times> string) list" where
  "exampleRewards = [(5, ''A''), (10, ''B''), (15, ''C'')]"

definition exampleEnv :: "bool \<Rightarrow> levelUpEnv" where
  "exampleEnv refreshed =
     \<lparr>envConfig = noConfig\<lparr>levelRoles := Some exampleRewards,
                           roleRemovalStrategy := Some ''remove_previous''\<rparr>,
      guildCached = True, addSucceeds = True, removeSucceeds = True,
      cacheRefreshed = refreshed\<rparr>"

definition memberLedger :: ledger where
  "memberLedger = emptyLedger\<lparr>memberRoles := [(''1'', ''2'') \<mapsto> []]\<rparr>"

subsection \<open>Facts about the role lists\<close>








lemma ex_env [simp]:
  "levelRoles (envConfig (exampleEnv b)) = Some exampleRewards"
  "guildCached (exampleEnv b)" "addSucceeds (exampleEnv b)" "removeSucceeds (exampleEnv b)"
  "cacheRefreshed (exampleEnv b) = b"
  by (simp_all add: exampleEnv_def noConfig_def)

lemma ex_member [simp]:
  "memberRoles memberLedger (''1'', ''2'') = Some []" "events memberLedger = []"
  by (simp_all add: memberLedger_def emptyLedger_def)

lemma ex_nonempty [simp]: "exampleRewards \<noteq> []"
  by (simp add: exampleRewards_def)




section \<open>LevelingManager.getLeaderboard\<close>

text \<open>
  \<^verbatim>\<open>
  if (!guildId) throw new Error(...);
  const safeLimit = Math.max(1, Math.min(limit, 50));
  const leaderboardData = await UserLevel.find({ guildId: guildId, xp: { $gt: 0 } })
    .sort({ xp: -1, updatedAt: -1 }).limit(safeLimit).lean();
  return leaderboardData;
  \<close>
  The collection is the list of its documents. The MongoDB query keeps the documents that
  match the filter, orders them by \<open>xp\<close> descending and then \<open>updatedAt\<close> descending, and
  returns the first \<open>safeLimit\<close> of them. The order is that of the key
  \<open>(- xp, - updatedAt)\<close>, compared lexicographically; documents equal in both fields stay
  in collection order (MongoDB leaves their order open). \<open>limit\<close> is an integer.
\<close>

definition safeLimit :: "int \<Rightarrow> int" where
  "safeLimit limit = max 1 (min limit 50)"

definition onBoard :: "string \<Rightarrow> UserLevelDoc \<Rightarrow> bool" where
  "onBoard g d = (guildId d = g \<and> xp d > 0)"

definition leaderboardKey :: "UserLevelDoc \<Rightarrow> int \<times> int" where
  "leaderboardKey d = (- xp d, - updatedAt d)"

definition getLeaderboard :: "UserLevelDoc list \<Rightarrow> string \<Rightarrow> int \<Rightarrow> string + UserLevelDoc list" where
  "getLeaderboard coll g limit =
     (if g = [] then Inl ''[LevelingManager] guildId diperlukan untuk getLeaderboard.''
      else Inr (take (nat (safeLimit limit)) (sort_key leaderboardKey (filter (onBoard g) coll))))"

text \<open>\<open>a\<close> may stand before \<open>b\<close> on the leaderboard: more experience, or the same and
  updated no earlier.\<close>

definition ranksBefore :: "UserLevelDoc \<Rightarrow> UserLevelDoc \<Rightarrow> bool" where
  "ranksBefore a b = (xp a > xp b \<or> (xp a = xp b \<and> updatedAt a \<ge> updatedAt b))"

definition boardDoc :: "string \<Rightarrow> string \<Rightarrow> int \<Rightarrow> int \<Rightarrow> UserLevelDoc" where
  "boardDoc g u points stamp =
     \<lparr>guildId = g, userId = u, xp = points, level = 0, lastMessageTimestamp = 0,
      totalMessages = 0, totalVoiceDurationMillis = 0, updatedAt = stamp\<rparr>"

definition board :: "UserLevelDoc list" where
  "board = [boardDoc ''1'' ''a'' 50 10, boardDoc ''1'' ''b'' 120 20, boardDoc ''1'' ''c'' 0 30,
            boardDoc ''1'' ''d'' 120 40, boardDoc ''9'' ''e'' 150 50]"

subsection \<open>Facts about the leaderboard\<close>

lemma leaderboardKey_le: "leaderboardKey a \<le> leaderboardKey b \<longleftrightarrow> ranksBefore a b"
  by (auto simp: leaderboardKey_def ranksBefore_def less_eq_prod_def)

lemma sorted_key_nth:
  assumes "sorted (map leaderboardKey xs)" "i < j" "j < length xs"
  shows "ranksBefore (xs ! i) (xs ! j)"
proof -
  have "map leaderboardKey xs ! i \<le> map leaderboardKey xs ! j"
    using assms by (intro sorted_nth_mono) auto
  then show ?thesis using assms by (simp add: leaderboardKey_le)
qed

lemma sorted_key_take_drop:
  assumes "sorted (map leaderboardKey xs)" "e \<in> set (take n xs)" "d \<in> set (drop n xs)"
  shows "ranksBefore e d"
proof -
  have "sorted (map leaderboardKey (take n xs) @ map leaderboardKey (drop n xs))"
    using assms(1) by (simp flip: map_append)
  then have "leaderboardKey e \<le> leaderboardKey d"
    using assms(2,3) by (auto simp: sorted_append)
  then show ?thesis by (simp add: leaderboardKey_le)
qed

lemma board_eligible:
  "filter (onBoard ''1'') board =
     [boardDoc ''1'' ''a'' 50 10, boardDoc ''1'' ''b'' 120 20, boardDoc ''1'' ''d'' 120 40]"
  by (simp add: board_def onBoard_def boardDoc_def)

lemma board_sorted:
  "sort_key leaderboardKey (filter (onBoard ''1'') board) =
     [boardDoc ''1'' ''d'' 120 40, boardDoc ''1'' ''b'' 120 20, boardDoc ''1'' ''a'' 50 10]"
  unfolding board_eligible
  by (simp add: leaderboardKey_def boardDoc_def less_eq_prod_def)

text \<open>
  Claim C7. For a guild id that is given, \<open>getLeaderboard\<close> returns \<open>N\<close> documents or all
  matching ones if there are fewer, where \<open>N\<close> is the limit clamped to \<open>[1, 50]\<close>. Every
  returned document belongs to the guild and has \<open>xp > 0\<close>. The result is ordered by
  experience descending, ties by the later \<open>updatedAt\<close> first. It is the top of the
  matching documents: together with the documents left out (\<open>rest\<close>) it makes up exactly
  the matching documents, and every returned one may stand before every one left out.
  With limit 10 and three users with \<open>xp > 0\<close> it returns exactly three entries.
\<close>

theorem leaderboard_top_n:
  assumes "g \<noteq> []"
  shows "\<exists>res rest.
     getLeaderboard coll g limit = Inr res \<and>
     length res = min (nat (max 1 (min limit 50))) (length (filter (onBoard g) coll)) \<and>
     length res \<le> 50 \<and>
     mset (res @ rest) = mset (filter (onBoard g) coll) \<and>
     (\<forall>d \<in> set res. guildId d = g \<and> 0 < xp d) \<and>
     (\<forall>i j. i < j \<and> j < length res \<longrightarrow> ranksBefore (res ! i) (res ! j)) \<and>
     (\<forall>e \<in> set res. \<forall>d \<in> set rest. ranksBefore e d) \<and>
     (limit = 10 \<and> length (filter (onBoard g) coll) = 3 \<longrightarrow> length res = 3 \<and> rest = [])"
proof -
  define srt where "srt = sort_key leaderboardKey (filter (onBoard g) coll)"
  define n where "n = nat (safeLimit limit)"
  have srt_sorted: "sorted (map leaderboardKey srt)" by (simp add: srt_def)
  have srt_mset: "mset srt = mset (filter (onBoard g) coll)" by (simp add: srt_def)
  have srt_len: "length srt = length (filter (onBoard g) coll)" by (simp add: srt_def)
  have res: "getLeaderboard coll g limit = Inr (take n srt)"
    using assms by (simp add: getLeaderboard_def srt_def n_def)
  have n50: "n \<le> 50" "1 \<le> n" by (simp_all add: n_def safeLimit_def)
  have len: "length (take n srt) = min (nat (max 1 (min limit 50))) (length (filter (onBoard g) coll))"
    by (simp add: n_def safeLimit_def srt_len min.commute)
  have on: "\<forall>d \<in> set (take n srt). guildId d = g \<and> 0 < xp d"
  proof
    fix d assume "d \<in> set (take n srt)"
    then have "d \<in> set srt" by (rule in_set_takeD)
    then have "d \<in> set (filter (onBoard g) coll)" by (simp add: srt_def)
    then show "guildId d = g \<and> 0 < xp d" by (simp add: onBoard_def)
  qed
  have ord: "\<forall>i j. i < j \<and> j < length (take n srt) \<longrightarrow> ranksBefore (take n srt ! i) (take n srt ! j)"
  proof (intro allI impI)
    fix i j assume ij: "i < j \<and> j < length (take n srt)"
    then have "ranksBefore (srt ! i) (srt ! j)"
      using sorted_key_nth [OF srt_sorted, of i j] by simp
    with ij show "ranksBefore (take n srt ! i) (take n srt ! j)" by simp
  qed
  have top: "\<forall>e \<in> set (take n srt). \<forall>d \<in> set (drop n srt). ranksBefore e d"
    using sorted_key_take_drop [OF srt_sorted] by blast
  have ex: "limit = 10 \<and> length (filter (onBoard g) coll) = 3 \<longrightarrow>
      length (take n srt) = 3 \<and> drop n srt = []"
    by (simp add: n_def safeLimit_def srt_len)
  have ms: "mset (take n srt @ drop n srt) = mset (filter (onBoard g) coll)"
    by (simp only: append_take_drop_id srt_mset)
  have l50: "length (take n srt) \<le> 50" using n50 by simp
  have "getLeaderboard coll g limit = Inr (take n srt) \<and>
     length (take n srt) = min (nat (max 1 (min limit 50))) (length (filter (onBoard g) coll)) \<and>
     length (take n srt) \<le> 50 \<and>
     mset (take n srt @ drop n srt) = mset (filter (onBoard g) coll) \<and>
     (\<forall>d \<in> set (take n srt). guildId d = g \<and> 0 < xp d) \<and>
     (\<forall>i j. i < j \<and> j < length (take n srt) \<longrightarrow> ranksBefore (take n srt ! i) (take n srt ! j)) \<and>
     (\<forall>e \<in> set (take n srt). \<forall>d \<in> set (drop n srt). ranksBefore e d) \<and>
     (limit = 10 \<and> length (filter (onBoard g) coll) = 3 \<longrightarrow>
        length (take n srt) = 3 \<and> drop n srt = [])"
    using res len l50 ms on ord top ex by (intro conjI)
  then show ?thesis by (intro exI)
qed

theorem leaderboard_top_n_witness:
  "getLeaderboard board ''1'' 10 =
     Inr [boardDoc ''1'' ''d'' 120 40, boardDoc ''1'' ''b'' 120 20, boardDoc ''1'' ''a'' 50 10] \<and>
   (\<exists>res. getLeaderboard board ''1'' 10 = Inr res \<and> length res = 3 \<and>
      ranksBefore (res ! 0) (res ! 1) \<and> ranksBefore (res ! 1) (res ! 2))"
proof -
  have ne: "''1'' \<noteq> []" by simp
  have three: "length (filter (onBoard ''1'') board) = 3" by (simp add: board_eligible)
  have a: "getLeaderboard board ''1'' 10 =
     Inr [boardDoc ''1'' ''d'' 120 40, boardDoc ''1'' ''b'' 120 20, boardDoc ''1'' ''a'' 50 10]"
    by (simp add: getLeaderboard_def safeLimit_def board_sorted)
  obtain res where r: "getLeaderboard board ''1'' 10 = Inr res" "length res = 3"
    "\<forall>i j. i < j \<and> j < length res \<longrightarrow> ranksBefore (res ! i) (res ! j)"
    using leaderboard_top_n [OF ne, of board 10] three by auto
  from r(2,3) have "ranksBefore (res ! 0) (res ! 1)" "ranksBefore (res ! 1) (res ! 2)"
    by simp_all
  with a r show ?thesis by blast
qed

section \<open>GuildConfigManager\<close>

subsection \<open>_normalizeConfig\<close>

text \<open>
  \<^verbatim>\<open>
  _normalizeConfig(config) {
    if (!config) return {};
    const normalized = { ...config };
    normalized.roleMultipliers = new Map(Object.entries(config.roleMultipliers || {}));
    ... (channelMultipliers, levelRoles likewise)
    normalized.ignoredRoles = Array.isArray(config.ignoredRoles) ? config.ignoredRoles : [];
    ... (ignoredChannels likewise)
    normalized.xpPerMessage =
      Number(config.xpPerMessage ?? this.defaultConfig?.xpPerMessage ?? 15);
    ... (xpPerMinuteVoice with 5, messageCooldownSeconds with 60)
    normalized.levelUpMessageEnabled = config.levelUpMessageEnabled !== false;
    normalized.enablePenaltySystem = config.enablePenaltySystem === true;
    normalized.leaderboardStyle =
      ["card", "text"].includes(config.leaderboardStyle) ? config.leaderboardStyle : "card";
    const validStrategies = ["keep_all", "highest_only", "remove_previous"];
    normalized.roleRemovalStrategy =
      validStrategies.includes(config.roleRemovalStrategy) ? config.roleRemovalStrategy
                                                           : "keep_all";
    return normalized;
  }
  \<close>
  The first argument of the model is \<open>this.defaultConfig\<close>, which is still undefined
  (\<open>None\<close>) when the constructor normalizes the default itself. A raw map property is taken
  as the plain object that a lean document holds, given by its entries.
\<close>

definition validStrategies :: "string list" where
  "validStrategies = [''keep_all'', ''highest_only'', ''remove_previous'']"

definition validStyles :: "string list" where
  "validStyles = [''card'', ''text'']"

definition orElse :: "'a option \<Rightarrow> 'a \<Rightarrow> 'a" where
  "orElse v d = (case v of None \<Rightarrow> d | Some x \<Rightarrow> x)"

definition coerceEnum :: "string list \<Rightarrow> string \<Rightarrow> string option \<Rightarrow> string" where
  "coerceEnum valid fallback v =
     (case v of None \<Rightarrow> fallback | Some x \<Rightarrow> if x \<in> set valid then x else fallback)"

definition normalizeConfig :: "GuildConfig option \<Rightarrow> GuildConfig option \<Rightarrow> GuildConfig" where
  "normalizeConfig dflt config =
     (case config of
        None \<Rightarrow> noConfig
      | Some c \<Rightarrow>
          c\<lparr>roleMultipliers := Some (orElse (roleMultipliers c) []),
            channelMultipliers := Some (orElse (channelMultipliers c) []),
            levelRoles := Some (orElse (levelRoles c) []),
            ignoredRoles := Some (orElse (ignoredRoles c) []),
            ignoredChannels := Some (orElse (ignoredChannels c) []),
            xpPerMessage :=
              Some (orElse (xpPerMessage c) (orElse (Option.bind dflt xpPerMessage) 15)),
            xpPerMinuteVoice :=
              Some (orElse (xpPerMinuteVoice c) (orElse (Option.bind dflt xpPerMinuteVoice) 5)),
            messageCooldownSeconds :=
              Some (orElse (messageCooldownSeconds c)
                      (orElse (Option.bind dflt messageCooldownSeconds) 60)),
            levelUpMessageEnabled := Some (levelUpMessageEnabled c \<noteq> Some False),
            enablePenaltySystem := Some (enablePenaltySystem c = Some True),
            leaderboardStyle := Some (coerceEnum validStyles ''card'' (leaderboardStyle c)),
            roleRemovalStrategy :=
              Some (coerceEnum validStrategies ''keep_all'' (roleRemovalStrategy c))\<rparr>)"

subsection \<open>getConfig and updateConfig\<close>

text \<open>
  Object spread \<open>{...base, ...over}\<close>: a property of \<open>over\<close> wins where it is present.
\<close>

definition overriding :: "'a option \<Rightarrow> 'a option \<Rightarrow> 'a option" where
  "overriding over base = (case over of None \<Rightarrow> base | Some x \<Rightarrow> Some x)"

definition spread :: "GuildConfig \<Rightarrow> GuildConfig \<Rightarrow> GuildConfig" where
  "spread base over =
     \<lparr>cfgGuildId = overriding (cfgGuildId over) (cfgGuildId base),
      xpPerMessage = overriding (xpPerMessage over) (xpPerMessage base),
      xpPerMinuteVoice = overriding (xpPerMinuteVoice over) (xpPerMinuteVoice base),
      messageCooldownSeconds = overriding (messageCooldownSeconds over) (messageCooldownSeconds base),
      roleMultipliers = overriding (roleMultipliers over) (roleMultipliers base),
      channelMultipliers = overriding (channelMultipliers over) (channelMultipliers base),
      ignoredRoles = overriding (ignoredRoles over) (ignoredRoles base),
      ignoredChannels = overriding (ignoredChannels over) (ignoredChannels base),
      levelUpMessageEnabled = overriding (levelUpMessageEnabled over) (levelUpMessageEnabled base),
      levelRoles = overriding (levelRoles over) (levelRoles base),
      roleRemovalStrategy = overriding (roleRemovalStrategy over) (roleRemovalStrategy base),
      enablePenaltySystem = overriding (enablePenaltySystem over) (enablePenaltySystem base),
      leaderboardStyle = overriding (leaderboardStyle over) (leaderboardStyle base)\<rparr>"

text \<open>
  The manager's state: the \<open>GuildConfig\<close> collection (lean documents by guild id), the cache
  entries under \<open>config-${guildId}\<close>, the default configuration that the constructor
  normalized, and the events emitted.
\<close>

datatype cfgEvent = ConfigUpdated string GuildConfig | ConfigError string

record configStore =
  cfgDb :: "string \<Rightarrow> GuildConfig option"
  cfgCache :: "string \<Rightarrow> GuildConfig option"
  defaultConfig :: GuildConfig
  cfgEvents :: "cfgEvent list"

definition newGuildConfigManager :: "(string \<Rightarrow> GuildConfig option) \<Rightarrow> GuildConfig option \<Rightarrow> configStore" where
  "newGuildConfigManager stored defaultRaw =
     \<lparr>cfgDb = stored, cfgCache = Map.empty,
      defaultConfig = normalizeConfig None defaultRaw, cfgEvents = []\<rparr>"

text \<open>
  \<^verbatim>\<open>
  let cachedConfig = this.cacheManager.get(cacheKey);
  if (cachedConfig) return { ...cachedConfig };
  const dbConfig = await GuildConfig.findOne({ guildId }).lean();
  if (!dbConfig) finalConfig = { ...this.defaultConfig, guildId };
  else finalConfig = this._normalizeConfig({ ...this.defaultConfig, ...dbConfig, guildId });
  this.cacheManager.set(cacheKey, finalConfig, 1800);
  return { ...finalConfig };
  \<close>
\<close>

definition getConfig :: "configStore \<Rightarrow> string \<Rightarrow> string + (configStore \<times> GuildConfig)" where
  "getConfig st g =
     (if g = [] then Inl ''[GuildConfigManager] guildId diperlukan untuk getConfig.''
      else case cfgCache st g of
        Some cachedConfig \<Rightarrow> Inr (st, cachedConfig)
      | None \<Rightarrow>
          (let finalConfig =
                 (case cfgDb st g of
                    None \<Rightarrow> (defaultConfig st)\<lparr>cfgGuildId := Some g\<rparr>
                  | Some dbConfig \<Rightarrow>
                      normalizeConfig (Some (defaultConfig st))
                        (Some ((spread (defaultConfig st) dbConfig)\<lparr>cfgGuildId := Some g\<rparr>)))
           in Inr (st\<lparr>cfgCache := (cfgCache st)(g \<mapsto> finalConfig)\<rparr>, finalConfig)))"

text \<open>
  \<open>updateConfig\<close> writes with
  \<open>GuildConfig.findOneAndUpdate({guildId}, {$set: updateData}, {upsert: true, new: true,
  setDefaultsOnInsert: true, runValidators: true})\<close>. The schema (\<open>GuildConfigSchema\<close>) gives
  the defaults of an inserted document and the validators that run on the paths being
  set: \<open>min\<close> on the three rates and \<open>enum\<close> on the two enumerated strings. A failed
  validation is thrown: the \<open>catch\<close> block emits \<open>error\<close> and throws again.
\<close>

definition schemaDefaults :: "string \<Rightarrow> GuildConfig" where
  "schemaDefaults g =
     \<lparr>cfgGuildId = Some g, xpPerMessage = Some 15, xpPerMinuteVoice = Some 5,
      messageCooldownSeconds = Some 60, roleMultipliers = Some [], channelMultipliers = Some [],
      ignoredRoles = Some [], ignoredChannels = Some [], levelUpMessageEnabled = Some True,
      levelRoles = Some [], roleRemovalStrategy = Some ''keep_all'',
      enablePenaltySystem = Some False, leaderboardStyle = Some ''card''\<rparr>"

definition notBelow :: "rat \<Rightarrow> rat option \<Rightarrow> bool" where
  "notBelow lo v = (case v of None \<Rightarrow> True | Some x \<Rightarrow> lo \<le> x)"

definition oneOf :: "string list \<Rightarrow> string option \<Rightarrow> bool" where
  "oneOf valid v = (case v of None \<Rightarrow> True | Some x \<Rightarrow> x \<in> set valid)"

definition passesValidators :: "GuildConfig \<Rightarrow> bool" where
  "passesValidators updateData =
     (notBelow 0 (xpPerMessage updateData) \<and> notBelow 0 (xpPerMinuteVoice updateData) \<and>
      notBelow 1 (messageCooldownSeconds updateData) \<and>
      oneOf validStrategies (roleRemovalStrategy updateData) \<and>
      oneOf validStyles (leaderboardStyle updateData))"

text \<open>
  \<^verbatim>\<open>
  if (updateData.roleRemovalStrategy &&
      !validStrategies.includes(updateData.roleRemovalStrategy)) {
    console.warn(`... Update field ini dilewati.`);
    delete updateData.roleRemovalStrategy;
  }
  \<close>
  and likewise for \<open>leaderboardStyle\<close>. A string is truthy when it is not empty.
\<close>

definition dropInvalid :: "string list \<Rightarrow> string option \<Rightarrow> string option" where
  "dropInvalid valid v =
     (case v of
        None \<Rightarrow> None
      | Some x \<Rightarrow> if x \<noteq> [] \<and> x \<notin> set valid then None else Some x)"

definition updateConfig ::
  "configStore \<Rightarrow> string \<Rightarrow> GuildConfig option \<Rightarrow> configStore \<times> (string + GuildConfig)" where
  "updateConfig st g newSettings =
     (case newSettings of
        None \<Rightarrow>
          (st, Inl ''[GuildConfigManager] guildId dan newSettings diperlukan untuk updateConfig.'')
      | Some settings \<Rightarrow>
          if g = [] then
            (st, Inl ''[GuildConfigManager] guildId dan newSettings diperlukan untuk updateConfig.'')
          else
            (let updateData = settings
                   \<lparr>roleRemovalStrategy := dropInvalid validStrategies (roleRemovalStrategy settings),
                    leaderboardStyle := dropInvalid validStyles (leaderboardStyle settings)\<rparr>
             in if \<not> passesValidators updateData then
                  (st\<lparr>cfgEvents := cfgEvents st @
                       [ConfigError (''Failed to update config for '' @ g @ '': Validation failed'')]\<rparr>,
                   Inl ''Validation failed'')
                else
                  (let updatedConfigLean =
                         (spread (orElse (cfgDb st g) (schemaDefaults g)) updateData)
                           \<lparr>cfgGuildId := Some g\<rparr>;
                       finalConfig =
                         normalizeConfig (Some (defaultConfig st))
                           (Some ((spread (defaultConfig st) updatedConfigLean)\<lparr>cfgGuildId := Some g\<rparr>))
                   in (st\<lparr>cfgDb := (cfgDb st)(g \<mapsto> updatedConfigLean),
                          cfgCache := (cfgCache st)(g \<mapsto> finalConfig),
                          cfgEvents := cfgEvents st @ [ConfigUpdated g finalConfig]\<rparr>,
                       Inr finalConfig))))"

text \<open>
  The invariant: both enumerated properties hold one of their values, in the default
  configuration and in every cached configuration.
\<close>

definition validEnums :: "GuildConfig \<Rightarrow> bool" where
  "validEnums c =
     (roleRemovalStrategy c \<in> Some ` set validStrategies \<and>
      leaderboardStyle c \<in> Some ` set validStyles)"

definition storeOk :: "configStore \<Rightarrow> bool" where
  "storeOk st = (validEnums (defaultConfig st) \<and> (\<forall>g c. cfgCache st g = Some c \<longrightarrow> validEnums c))"

definition tunedStore :: configStore where
  "tunedStore =
     newGuildConfigManager
       [''1'' \<mapsto> (schemaDefaults ''1'')\<lparr>roleRemovalStrategy := Some ''highest_only'',
                                          leaderboardStyle := Some ''text''\<rparr>]
       (Some noConfig)"

definition bogusSettings :: GuildConfig where
  "bogusSettings = noConfig\<lparr>roleRemovalStrategy := Some ''bogus'', leaderboardStyle := Some ''fancy''\<rparr>"

definition enumsOf :: "string + GuildConfig \<Rightarrow> string + (string option \<times> string option)" where
  "enumsOf r = map_sum id (\<lambda>c. (roleRemovalStrategy c, leaderboardStyle c)) r"

subsection \<open>Facts about the configuration manager\<close>

lemma coerceEnum_valid: "fallback \<in> set valid \<Longrightarrow> coerceEnum valid fallback v \<in> set valid"
  by (simp add: coerceEnum_def split: option.splits)

lemma coerce_strategy: "coerceEnum validStrategies ''keep_all'' v \<in> set validStrategies"
  by (rule coerceEnum_valid) (simp add: validStrategies_def)

lemma coerce_style: "coerceEnum validStyles ''card'' v \<in> set validStyles"
  by (rule coerceEnum_valid) (simp add: validStyles_def)

lemma validEnums_normalize: "validEnums (normalizeConfig dflt (Some raw))"
  by (simp add: validEnums_def normalizeConfig_def coerce_strategy coerce_style)

lemma validEnums_guild: "validEnums (c\<lparr>cfgGuildId := x\<rparr>) = validEnums c"
  by (simp add: validEnums_def)

lemma getConfig_valid:
  assumes "storeOk st" "getConfig st g = Inr (st', c)"
  shows "validEnums c \<and> storeOk st'"
  using assms
  by (auto simp: getConfig_def storeOk_def Let_def validEnums_normalize validEnums_guild
      split: if_splits option.splits)

lemma updateConfig_valid:
  assumes "storeOk st"
  shows "storeOk (fst (updateConfig st g new)) \<and>
         (snd (updateConfig st g new) = Inr c \<longrightarrow> validEnums c)"
  using assms
  by (auto simp: updateConfig_def storeOk_def Let_def validEnums_normalize
      split: if_splits option.splits)

lemma newManager_ok: "storeOk (newGuildConfigManager stored (Some raw))"
  by (simp add: storeOk_def newGuildConfigManager_def validEnums_normalize)

lemma dropInvalid_cases:
  "v \<noteq> [] \<Longrightarrow> v \<notin> set valid \<Longrightarrow> dropInvalid valid (Some v) = None"
  "dropInvalid valid None = None"
  by (simp_all add: dropInvalid_def)

lemma updateConfig_skips_strategy:
  assumes "roleRemovalStrategy settings = Some v" "v \<noteq> []" "v \<notin> set validStrategies"
  shows "updateConfig st g (Some settings) =
         updateConfig st g (Some (settings\<lparr>roleRemovalStrategy := None\<rparr>))"
  using assms by (simp add: updateConfig_def dropInvalid_cases)

lemma updateConfig_skips_style:
  assumes "leaderboardStyle settings = Some v" "v \<noteq> []" "v \<notin> set validStyles"
  shows "updateConfig st g (Some settings) =
         updateConfig st g (Some (settings\<lparr>leaderboardStyle := None\<rparr>))"
  using assms by (simp add: updateConfig_def dropInvalid_cases)

lemma normalize_coerces:
  "roleRemovalStrategy (normalizeConfig dflt (Some raw)) =
     Some (coerceEnum validStrategies ''keep_all'' (roleRemovalStrategy raw))"
  "leaderboardStyle (normalizeConfig dflt (Some raw)) =
     Some (coerceEnum validStyles ''card'' (leaderboardStyle raw))"
  by (simp_all add: normalizeConfig_def)

lemma bogus_update:
  "snd (updateConfig tunedStore ''1'' (Some bogusSettings)) = Inr c \<Longrightarrow>
   roleRemovalStrategy c = Some ''highest_only'' \<and> leaderboardStyle c = Some ''text''"
  by (auto simp: updateConfig_def Let_def bogusSettings_def tunedStore_def dropInvalid_def
      validStrategies_def validStyles_def passesValidators_def notBelow_def oneOf_def noConfig_def
      newGuildConfigManager_def normalize_coerces spread_def overriding_def orElse_def schemaDefaults_def
      coerceEnum_def split: if_splits)

lemma bogus_passes: "\<exists>c. snd (updateConfig tunedStore ''1'' (Some bogusSettings)) = Inr c"
  by (simp add: updateConfig_def Let_def bogusSettings_def dropInvalid_def
      validStrategies_def validStyles_def passesValidators_def notBelow_def oneOf_def noConfig_def)

lemma tuned_read: "\<exists>st' c. getConfig tunedStore ''1'' = Inr (st', c)"
  by (simp add: getConfig_def Let_def tunedStore_def newGuildConfigManager_def)

lemma tuned_read_enums:
  "getConfig tunedStore ''1'' = Inr (st', c) \<Longrightarrow>
   roleRemovalStrategy c = Some ''highest_only'' \<and> leaderboardStyle c = Some ''text''"
  by (auto simp: getConfig_def Let_def tunedStore_def newGuildConfigManager_def normalize_coerces
      spread_def overriding_def schemaDefaults_def coerceEnum_def validStrategies_def validStyles_def)

text \<open>
  Claim C9 (as amended). Every normalized configuration has a \<open>roleRemovalStrategy\<close> among
  \<open>keep_all\<close>, \<open>highest_only\<close>, \<open>remove_previous\<close> and a \<open>leaderboardStyle\<close> among \<open>card\<close>,
  \<open>text\<close>; an invalid or missing raw value is coerced to \<open>keep_all\<close>, respectively \<open>card\<close>.
  A manager constructed with a default object satisfies the invariant, every
  \<open>getConfig\<close> and every \<open>updateConfig\<close> preserves it, and every configuration they return
  has valid values. An invalid non-empty value supplied to \<open>updateConfig\<close> is not coerced:
  the property is dropped from the update, which then behaves exactly as if the property
  had not been supplied, so the stored value stays.
\<close>

theorem config_enums_always_valid:
  "validEnums (normalizeConfig dflt (Some raw)) \<and>
   (roleRemovalStrategy raw \<notin> Some ` set validStrategies \<longrightarrow>
      roleRemovalStrategy (normalizeConfig dflt (Some raw)) = Some ''keep_all'') \<and>
   (leaderboardStyle raw \<notin> Some ` set validStyles \<longrightarrow>
      leaderboardStyle (normalizeConfig dflt (Some raw)) = Some ''card'') \<and>
   storeOk (newGuildConfigManager stored (Some raw)) \<and>
   (storeOk st \<and> getConfig st g = Inr (st', c) \<longrightarrow> validEnums c \<and> storeOk st') \<and>
   (storeOk st \<longrightarrow> storeOk (fst (updateConfig st g new)) \<and>
      (snd (updateConfig st g new) = Inr c' \<longrightarrow> validEnums c')) \<and>
   (roleRemovalStrategy settings = Some v \<and> v \<noteq> [] \<and> v \<notin> set validStrategies \<longrightarrow>
      updateConfig st g (Some settings) =
      updateConfig st g (Some (settings\<lparr>roleRemovalStrategy := None\<rparr>))) \<and>
   (leaderboardStyle settings = Some w \<and> w \<noteq> [] \<and> w \<notin> set validStyles \<longrightarrow>
      updateConfig st g (Some settings) =
      updateConfig st g (Some (settings\<lparr>leaderboardStyle := None\<rparr>)))"
proof (intro conjI impI)
  show "validEnums (normalizeConfig dflt (Some raw))" by (rule validEnums_normalize)
next
  assume "roleRemovalStrategy raw \<notin> Some ` set validStrategies"
  then show "roleRemovalStrategy (normalizeConfig dflt (Some raw)) = Some ''keep_all''"
    by (auto simp: normalize_coerces coerceEnum_def split: option.splits)
next
  assume "leaderboardStyle raw \<notin> Some ` set validStyles"
  then show "leaderboardStyle (normalizeConfig dflt (Some raw)) = Some ''card''"
    by (auto simp: normalize_coerces coerceEnum_def split: option.splits)
next
  show "storeOk (newGuildConfigManager stored (Some raw))" by (rule newManager_ok)
next
  assume a: "storeOk st \<and> getConfig st g = Inr (st', c)"
  then show "validEnums c" "storeOk st'" using getConfig_valid [of st g st' c] by simp_all
next
  assume a: "storeOk st"
  show "storeOk (fst (updateConfig st g new))" using updateConfig_valid [OF a] by simp
  assume "snd (updateConfig st g new) = Inr c'"
  then show "validEnums c'" using updateConfig_valid [OF a, of g new c'] by simp
next
  assume "roleRemovalStrategy settings = Some v \<and> v \<noteq> [] \<and> v \<notin> set validStrategies"
  then show "updateConfig st g (Some settings) =
      updateConfig st g (Some (settings\<lparr>roleRemovalStrategy := None\<rparr>))"
    using updateConfig_skips_strategy [of settings v st g] by simp
next
  assume "leaderboardStyle settings = Some w \<and> w \<noteq> [] \<and> w \<notin> set validStyles"
  then show "updateConfig st g (Some settings) =
      updateConfig st g (Some (settings\<lparr>leaderboardStyle := None\<rparr>))"
    using updateConfig_skips_style [of settings w st g] by simp
qed

theorem config_enums_always_valid_witness:
  "validEnums (normalizeConfig None (Some bogusSettings)) \<and>
   roleRemovalStrategy (normalizeConfig None (Some bogusSettings)) = Some ''keep_all'' \<and>
   leaderboardStyle (normalizeConfig None (Some bogusSettings)) = Some ''card'' \<and>
   storeOk tunedStore \<and>
   (\<exists>st' c. getConfig tunedStore ''1'' = Inr (st', c) \<and> validEnums c \<and> storeOk st' \<and>
      roleRemovalStrategy c = Some ''highest_only'') \<and>
   (\<exists>c'. snd (updateConfig tunedStore ''1'' (Some bogusSettings)) = Inr c' \<and> validEnums c' \<and>
      roleRemovalStrategy c' = Some ''highest_only'') \<and>
   updateConfig tunedStore ''1'' (Some bogusSettings) =
     updateConfig tunedStore ''1'' (Some (bogusSettings\<lparr>roleRemovalStrategy := None\<rparr>))"
proof -
  obtain st' c where read: "getConfig tunedStore ''1'' = Inr (st', c)"
    using tuned_read by blast
  obtain c' where upd: "snd (updateConfig tunedStore ''1'' (Some bogusSettings)) = Inr c'"
    using bogus_passes by blast
  have raw: "roleRemovalStrategy bogusSettings = Some ''bogus''"
    "leaderboardStyle bogusSettings = Some ''fancy''"
    "''bogus'' \<notin> set validStrategies" "''fancy'' \<notin> set validStyles"
    "Some ''bogus'' \<notin> Some ` set validStrategies" "Some ''fancy'' \<notin> Some ` set validStyles"
    by (auto simp: bogusSettings_def validStrategies_def validStyles_def)
  have ok: "storeOk tunedStore"
    unfolding tunedStore_def by (rule newManager_ok)
  note inst = config_enums_always_valid [where dflt = None and raw = bogusSettings
      and stored = "[''1'' \<mapsto> (schemaDefaults ''1'')\<lparr>roleRemovalStrategy := Some ''highest_only'',
                                          leaderboardStyle := Some ''text''\<rparr>]"
      and st = tunedStore and g = "''1''" and st' = st' and c = c and new = "Some bogusSettings"
      and c' = c' and settings = bogusSettings and v = "''bogus''" and w = "''fancy''"]
  have a: "validEnums (normalizeConfig None (Some bogusSettings))"
    "roleRemovalStrategy (normalizeConfig None (Some bogusSettings)) = Some ''keep_all''"
    "leaderboardStyle (normalizeConfig None (Some bogusSettings)) = Some ''card''"
    using inst raw by simp_all
  have b: "validEnums c" "storeOk st'" using inst ok read by simp_all
  have d: "validEnums c'" using inst ok upd by simp
  have e: "updateConfig tunedStore ''1'' (Some bogusSettings) =
     updateConfig tunedStore ''1'' (Some (bogusSettings\<lparr>roleRemovalStrategy := None\<rparr>))"
    using inst raw by simp
  show ?thesis
    using a ok b d e read upd tuned_read_enums [OF read] bogus_update [OF upd] by blast
qed

text \<open>
  The claim as written says that an invalid value supplied to an update ends as the
  default. With \<open>highest_only\<close> and \<open>text\<close> stored, an update that supplies \<open>bogus\<close> and
  \<open>fancy\<close> returns a configuration that still has \<open>highest_only\<close> and \<open>text\<close>.
\<close>

theorem invalid_update_not_coerced_counterexample:
  "enumsOf (snd (updateConfig tunedStore ''1'' (Some bogusSettings))) =
     Inr (Some ''highest_only'', Some ''text'') \<and>
   enumsOf (snd (updateConfig tunedStore ''1'' (Some bogusSettings))) \<noteq>
     Inr (Some ''keep_all'', Some ''card'')"
proof -
  obtain c' where upd: "snd (updateConfig tunedStore ''1'' (Some bogusSettings)) = Inr c'"
    using bogus_passes by blast
  then show ?thesis using bogus_update [OF upd] by (simp add: enumsOf_def)
qed

section \<open>VoiceManager\<close>

text \<open>
  A voice state as the handler reads it (\<open>channelId\<close>, \<open>deaf\<close>, \<open>suppress\<close>), and a
  \<open>voiceStateUpdate\<close> event: the ids of \<open>newState\<close>, whether \<open>newState.member\<close> exists and is
  a bot (\<open>None\<close>: no member), and the two states.
  The manager's state is the collection \<open>voiceJoinTimes\<close>, a map in insertion order whose
  key \<open>${guildId}-${userId}\<close> is kept as the pair, and the calls made to
  \<open>xpManager.handleVoiceXP(guildId, userId, durationMillis)\<close>, in order. Handlers run one
  after the other, each to its end.
\<close>

record voiceState =
  vsChannelId :: "string option"
  vsDeaf :: bool
  vsSuppress :: bool

record voiceUpdate =
  vuGuildId :: string
  vuUserId :: string
  vuMemberBot :: "bool option"
  oldState :: voiceState
  newState :: voiceState

record voiceManager =
  voiceJoinTimes :: "((string \<times> string) \<times> int) list"
  voiceXPCalls :: "(string \<times> string \<times> int) list"

text \<open>\<^verbatim>\<open>state.channelId && !state.deaf && !state.suppress\<close>\<close>

definition validForXp :: "voiceState \<Rightarrow> bool" where
  "validForXp vs =
     (case vsChannelId vs of
        None \<Rightarrow> False
      | Some c \<Rightarrow> c \<noteq> [] \<and> \<not> vsDeaf vs \<and> \<not> vsSuppress vs)"

text \<open>
  \<^verbatim>\<open>
  async _processXpGainOnExit(guildId, userId, joinTime, reason) {
    const now = Date.now();
    const durationMillis = now - joinTime;
    if (durationMillis > 10000) await this.xpManager.handleVoiceXP(guildId, userId, durationMillis);
  }
  \<close>
\<close>

definition processXpGainOnExit :: "voiceManager \<Rightarrow> string \<Rightarrow> string \<Rightarrow> int \<Rightarrow> int \<Rightarrow> voiceManager" where
  "processXpGainOnExit vm g u joinTime now =
     (let durationMillis = now - joinTime
      in if durationMillis > 10000
         then vm\<lparr>voiceXPCalls := voiceXPCalls vm @ [(g, u, durationMillis)]\<rparr>
         else vm)"

text \<open>
  \<^verbatim>\<open>
  if (!member || member.user.bot) return;
  const joinTime = this.voiceJoinTimes.get(key);
  if (!wasValidForXp && isValidForXp) {
    if (!joinTime) this.voiceJoinTimes.set(key, Date.now());
  } else if (wasValidForXp && !isValidForXp) {
    if (joinTime) {
      await this._processXpGainOnExit(guildId, userId, joinTime, reason);
      this.voiceJoinTimes.delete(key);
    }
  }
  \<close>
  \<open>joinTime\<close> is falsy when the key is absent or the stored number is 0. \<open>now\<close> is the
  reading of \<open>Date.now()\<close> while the handler runs.
\<close>

text \<open>
  Both handlers are asynchronous: a flush or a grant is awaited
  (\<open>await this._processXpGainOnExit(...)\<close>, \<open>await this.xpManager.handleVoiceXP(...)\<close>), and
  the change of the table that follows it (\<open>delete(key)\<close>, \<open>set(key, now)\<close>) is made when
  the handler resumes. Another handler may run in between. Each handler is therefore
  given in two parts: the part up to the \<open>await\<close>, which returns the change of the table
  that is still to be made, and \<open>finishPending\<close>, which makes it on the table as it is by
  then. A handler that nothing interrupts is the one part followed at once by the other.
\<close>

datatype pendingTable = PendingDelete "string \<times> string" | PendingSet "string \<times> string" int

fun finishPending :: "pendingTable option \<Rightarrow> voiceManager \<Rightarrow> voiceManager" where
  "finishPending None vm = vm"
| "finishPending (Some (PendingDelete k)) vm =
     vm\<lparr>voiceJoinTimes := AList.delete k (voiceJoinTimes vm)\<rparr>"
| "finishPending (Some (PendingSet k now)) vm =
     vm\<lparr>voiceJoinTimes := AList.update k now (voiceJoinTimes vm)\<rparr>"

definition handleVoiceStateUpdateBegin ::
  "voiceManager \<Rightarrow> int \<Rightarrow> voiceUpdate \<Rightarrow> voiceManager \<times> pendingTable option" where
  "handleVoiceStateUpdateBegin vm now upd =
     (case vuMemberBot upd of
        None \<Rightarrow> (vm, None)
      | Some isBot \<Rightarrow>
          if isBot then (vm, None)
          else
            (let k = (vuGuildId upd, vuUserId upd);
                 joinTime = map_of (voiceJoinTimes vm) k;
                 isValidForXp = validForXp (newState upd);
                 wasValidForXp = validForXp (oldState upd)
             in if \<not> wasValidForXp \<and> isValidForXp then
                  (case joinTime of
                     None \<Rightarrow> (vm\<lparr>voiceJoinTimes := AList.update k now (voiceJoinTimes vm)\<rparr>, None)
                   | Some t \<Rightarrow>
                       if t = 0
                       then (vm\<lparr>voiceJoinTimes := AList.update k now (voiceJoinTimes vm)\<rparr>, None)
                       else (vm, None))
                else if wasValidForXp \<and> \<not> isValidForXp then
                  (case joinTime of
                     None \<Rightarrow> (vm, None)
                   | Some t \<Rightarrow>
                       if t = 0 then (vm, None)
                       else (processXpGainOnExit vm (vuGuildId upd) (vuUserId upd) t now,
                             Some (PendingDelete k)))
                else (vm, None)))"

definition handleVoiceStateUpdate :: "voiceManager \<Rightarrow> int \<Rightarrow> voiceUpdate \<Rightarrow> voiceManager" where
  "handleVoiceStateUpdate vm now upd =
     (case handleVoiceStateUpdateBegin vm now upd of (vm1, pending) \<Rightarrow> finishPending pending vm1)"

text \<open>
  The periodic sweep \<open>checkVoiceActivity\<close> visits every entry once. What it asks of the
  outside: whether the guild is in the client's cache, whether the member is still
  eligible (\<open>isValid\<close>), and the clock when an exit is processed.
  \<^verbatim>\<open>
  if (!guild) { this.voiceJoinTimes.delete(key); continue; }
  ...
  if (!isValid) {
    await this._processXpGainOnExit(guildId, userId, joinTime, reason);
    this.voiceJoinTimes.delete(key);
  } else {
    const durationSinceLastCheckOrJoin = now - joinTime;
    if (durationSinceLastCheckOrJoin >= this.intervalMillis * 0.95) {
      await this.xpManager.handleVoiceXP(guildId, userId, this.intervalMillis);
      this.voiceJoinTimes.set(key, now);
    }
  }
  \<close>
\<close>

record sweepEnv =
  guildAvailable :: "string \<Rightarrow> bool"
  memberValid :: "string \<times> string \<Rightarrow> bool"
  exitClock :: "string \<times> string \<Rightarrow> int"

definition intervalMillis :: int where
  "intervalMillis = 5 * 60 * 1000"

definition rolloverDue :: "int \<Rightarrow> int \<Rightarrow> bool" where
  "rolloverDue now joinTime =
     (of_int (now - joinTime) \<ge> of_int intervalMillis * (95 / 100 :: rat))"

definition sweepEntryBegin ::
  "sweepEnv \<Rightarrow> int \<Rightarrow> (string \<times> string) \<times> int \<Rightarrow> voiceManager \<Rightarrow>
   voiceManager \<times> pendingTable option" where
  "sweepEntryBegin env now entry vm =
     (let k = fst entry; joinTime = snd entry
      in if \<not> guildAvailable env (fst k) then
           (vm\<lparr>voiceJoinTimes := AList.delete k (voiceJoinTimes vm)\<rparr>, None)
         else if \<not> memberValid env k then
           (processXpGainOnExit vm (fst k) (snd k) joinTime (exitClock env k),
            Some (PendingDelete k))
         else if rolloverDue now joinTime then
           (vm\<lparr>voiceXPCalls := voiceXPCalls vm @ [(fst k, snd k, intervalMillis)]\<rparr>,
            Some (PendingSet k now))
         else (vm, None))"

definition sweepEntry :: "sweepEnv \<Rightarrow> int \<Rightarrow> (string \<times> string) \<times> int \<Rightarrow> voiceManager \<Rightarrow> voiceManager" where
  "sweepEntry env now entry vm =
     (case sweepEntryBegin env now entry vm of (vm1, pending) \<Rightarrow> finishPending pending vm1)"

text \<open>
  A sweep's visit of an entry that is interrupted: a voice-state update is handled while
  the visit waits for its flush or grant, and the visit changes the table afterwards.
\<close>

definition sweepEntryInterrupted ::
  "sweepEnv \<Rightarrow> int \<Rightarrow> (string \<times> string) \<times> int \<Rightarrow> int \<Rightarrow> voiceUpdate \<Rightarrow> voiceManager \<Rightarrow>
   voiceManager" where
  "sweepEntryInterrupted env now entry now' upd vm =
     (case sweepEntryBegin env now entry vm of
        (vm1, pending) \<Rightarrow> finishPending pending (handleVoiceStateUpdate vm1 now' upd))"

definition checkVoiceActivity :: "sweepEnv \<Rightarrow> int \<Rightarrow> voiceManager \<Rightarrow> voiceManager" where
  "checkVoiceActivity env now vm = fold (sweepEntry env now) (voiceJoinTimes vm) vm"

text \<open>A run of the tracker: voice-state updates and sweeps, in any order.\<close>

datatype voiceStep = VoiceUpdate int voiceUpdate | Sweep sweepEnv int

fun voiceStepApply :: "voiceStep \<Rightarrow> voiceManager \<Rightarrow> voiceManager" where
  "voiceStepApply (VoiceUpdate now upd) vm = handleVoiceStateUpdate vm now upd"
| "voiceStepApply (Sweep env now) vm = checkVoiceActivity env now vm"

definition voiceRun :: "voiceManager \<Rightarrow> voiceStep list \<Rightarrow> voiceManager" where
  "voiceRun vm steps = fold voiceStepApply steps vm"

text \<open>
  Observations: the stored start of a key, the flush calls made for a key, entering and
  leaving eligibility, and the table having each key once (as a map has).
\<close>

definition startOf :: "voiceManager \<Rightarrow> string \<times> string \<Rightarrow> int option" where
  "startOf vm k = map_of (voiceJoinTimes vm) k"

definition callsFor :: "string \<times> string \<Rightarrow> voiceManager \<Rightarrow> (string \<times> string \<times> int) list" where
  "callsFor k vm = filter (\<lambda>c. (fst c, fst (snd c)) = k) (voiceXPCalls vm)"

definition credited :: "string \<times> string \<Rightarrow> voiceManager \<Rightarrow> int" where
  \<comment> \<open>the milliseconds handed to \<open>handleVoiceXP\<close> for a key, in total\<close>
  "credited k vm = sum_list (map (\<lambda>c. snd (snd c)) (callsFor k vm))"

definition entersEligibility :: "voiceUpdate \<Rightarrow> bool" where
  "entersEligibility upd =
     (vuMemberBot upd = Some False \<and> \<not> validForXp (oldState upd) \<and> validForXp (newState upd))"

definition exitsEligibility :: "voiceUpdate \<Rightarrow> bool" where
  "exitsEligibility upd =
     (vuMemberBot upd = Some False \<and> validForXp (oldState upd) \<and> \<not> validForXp (newState upd))"

definition wellFormed :: "voiceManager \<Rightarrow> bool" where
  "wellFormed vm = distinct (map fst (voiceJoinTimes vm))"

text \<open>What a sweep does to a tracked key with start \<open>t\<close>, and the calls it makes for it.\<close>

definition sweepOutcome :: "sweepEnv \<Rightarrow> int \<Rightarrow> string \<times> string \<Rightarrow> int \<Rightarrow> int option" where
  "sweepOutcome env now k t =
     (if guildAvailable env (fst k) \<and> memberValid env k
      then (if 285000 \<le> now - t then Some now else Some t)
      else None)"

definition sweepCalls :: "sweepEnv \<Rightarrow> int \<Rightarrow> string \<times> string \<Rightarrow> int \<Rightarrow> (string \<times> string \<times> int) list" where
  "sweepCalls env now k t =
     (if guildAvailable env (fst k)
      then (if memberValid env k
            then (if 285000 \<le> now - t then [(fst k, snd k, 300000)] else [])
            else (if exitClock env k - t > 10000 then [(fst k, snd k, exitClock env k - t)] else []))
      else [])"

text \<open>
  A step ends the interval that started at \<open>t\<close> for key \<open>k\<close> when it is an update by
  which \<open>k\<close> leaves eligibility, or a sweep that finds the guild gone, the member no longer
  eligible, or the interval due for its periodic grant.
\<close>

fun endsInterval :: "string \<times> string \<Rightarrow> int \<Rightarrow> voiceStep \<Rightarrow> bool" where
  "endsInterval k t (VoiceUpdate now upd) =
     ((vuGuildId upd, vuUserId upd) = k \<and> exitsEligibility upd)"
| "endsInterval k t (Sweep env now) =
     (\<not> guildAvailable env (fst k) \<or> \<not> memberValid env k \<or> 285000 \<le> now - t)"

definition inVoice :: voiceState where
  "inVoice = \<lparr>vsChannelId = Some ''500'', vsDeaf = False, vsSuppress = False\<rparr>"

definition deafened :: voiceState where
  "deafened = \<lparr>vsChannelId = Some ''500'', vsDeaf = True, vsSuppress = False\<rparr>"

definition undeafen :: voiceUpdate where
  "undeafen = \<lparr>vuGuildId = ''1'', vuUserId = ''2'', vuMemberBot = Some False,
                oldState = deafened, newState = inVoice\<rparr>"

definition deafen :: voiceUpdate where
  "deafen = \<lparr>vuGuildId = ''1'', vuUserId = ''2'', vuMemberBot = Some False,
              oldState = inVoice, newState = deafened\<rparr>"

definition tracking :: voiceManager where
  "tracking = \<lparr>voiceJoinTimes = [((''1'', ''2''), 1000)], voiceXPCalls = []\<rparr>"

definition lateJoiner :: voiceManager where
  "lateJoiner = \<lparr>voiceJoinTimes = [((''1'', ''2''), 16000)], voiceXPCalls = []\<rparr>"

definition allPresent :: sweepEnv where
  "allPresent = \<lparr>guildAvailable = (\<lambda>g. True), memberValid = (\<lambda>k. True), exitClock = (\<lambda>k. 0)\<rparr>"

subsection \<open>Facts about the tracker\<close>

lemma processXpGainOnExit_table [simp]:
  "voiceJoinTimes (processXpGainOnExit vm g u t now) = voiceJoinTimes vm"
  by (simp add: processXpGainOnExit_def Let_def)

lemma update_tracked:
  assumes "startOf vm (vuGuildId upd, vuUserId upd) = Some t" "t \<noteq> 0"
  shows "handleVoiceStateUpdate vm now upd =
     (if exitsEligibility upd
      then (processXpGainOnExit vm (vuGuildId upd) (vuUserId upd) t now)
             \<lparr>voiceJoinTimes := AList.delete (vuGuildId upd, vuUserId upd) (voiceJoinTimes vm)\<rparr>
      else vm)"
  using assms
  by (auto simp: handleVoiceStateUpdate_def handleVoiceStateUpdateBegin_def startOf_def exitsEligibility_def Let_def
      split: option.splits)

lemma update_untracked:
  assumes "startOf vm (vuGuildId upd, vuUserId upd) = None"
  shows "handleVoiceStateUpdate vm now upd =
     (if entersEligibility upd
      then vm\<lparr>voiceJoinTimes := AList.update (vuGuildId upd, vuUserId upd) now (voiceJoinTimes vm)\<rparr>
      else vm)"
  using assms
  by (auto simp: handleVoiceStateUpdate_def handleVoiceStateUpdateBegin_def startOf_def entersEligibility_def Let_def
      split: option.splits)

lemma update_other_key:
  assumes "k \<noteq> (vuGuildId upd, vuUserId upd)"
  shows "startOf (handleVoiceStateUpdate vm now upd) k = startOf vm k \<and>
         callsFor k (handleVoiceStateUpdate vm now upd) = callsFor k vm"
  using assms
  by (auto simp: handleVoiceStateUpdate_def handleVoiceStateUpdateBegin_def startOf_def callsFor_def Let_def
      processXpGainOnExit_def update_conv' delete_conv' split: option.splits)

lemma update_wellFormed: "wellFormed vm \<Longrightarrow> wellFormed (handleVoiceStateUpdate vm now upd)"
  by (auto simp: handleVoiceStateUpdate_def handleVoiceStateUpdateBegin_def wellFormed_def Let_def processXpGainOnExit_def
      distinct_update distinct_delete split: option.splits)

lemma rolloverDue_iff: "rolloverDue now t \<longleftrightarrow> 285000 \<le> now - t"
proof -
  have "of_int intervalMillis * (95 / 100 :: rat) = of_int 285000"
    by (simp add: intervalMillis_def)
  then have "rolloverDue now t \<longleftrightarrow> (of_int 285000 :: rat) \<le> of_int (now - t)"
    by (simp only: rolloverDue_def)
  then show ?thesis by (simp only: of_int_le_iff)
qed

lemma sweepEntry_key:
  assumes "startOf vm k = Some t"
  shows "startOf (sweepEntry env now (k, t) vm) k = sweepOutcome env now k t \<and>
         callsFor k (sweepEntry env now (k, t) vm) = callsFor k vm @ sweepCalls env now k t"
  using assms rolloverDue_iff [of now t]
  by (auto simp: sweepEntry_def sweepEntryBegin_def startOf_def callsFor_def sweepOutcome_def sweepCalls_def Let_def
      processXpGainOnExit_def update_conv' delete_conv' intervalMillis_def)

lemma sweepEntry_other:
  assumes "k' \<noteq> k"
  shows "startOf (sweepEntry env now (k, t) vm) k' = startOf vm k' \<and>
         callsFor k' (sweepEntry env now (k, t) vm) = callsFor k' vm"
  using assms
  by (auto simp: sweepEntry_def sweepEntryBegin_def startOf_def callsFor_def Let_def
      processXpGainOnExit_def update_conv' delete_conv')

lemma sweepEntry_wellFormed: "wellFormed vm \<Longrightarrow> wellFormed (sweepEntry env now e vm)"
  by (auto simp: sweepEntry_def sweepEntryBegin_def wellFormed_def Let_def processXpGainOnExit_def
      distinct_update distinct_delete)

lemma sweep_fold:
  assumes "distinct (map fst es)" "\<forall>e \<in> set es. startOf vm (fst e) = Some (snd e)"
  shows "startOf (fold (sweepEntry env now) es vm) k =
           (case map_of es k of None \<Rightarrow> startOf vm k | Some t \<Rightarrow> sweepOutcome env now k t) \<and>
         callsFor k (fold (sweepEntry env now) es vm) =
           callsFor k vm @ (case map_of es k of None \<Rightarrow> [] | Some t \<Rightarrow> sweepCalls env now k t)"
  using assms
proof (induction es arbitrary: vm)
  case Nil
  then show ?case by simp
next
  case (Cons e es)
  obtain k1 t1 where e: "e = (k1, t1)" by (cases e)
  define vm1 where "vm1 = sweepEntry env now (k1, t1) vm"
  have here: "startOf vm k1 = Some t1" using Cons.prems(2) e by simp
  have notin: "k1 \<notin> fst ` set es" and dist: "distinct (map fst es)"
    using Cons.prems(1) e by auto
  have later: "\<forall>e' \<in> set es. startOf vm1 (fst e') = Some (snd e')"
  proof
    fix e' assume in_es: "e' \<in> set es"
    then have "fst e' \<noteq> k1" using notin by auto
    then have "startOf vm1 (fst e') = startOf vm (fst e')"
      using sweepEntry_other [of "fst e'" k1 env now t1 vm] by (simp add: vm1_def)
    then show "startOf vm1 (fst e') = Some (snd e')" using Cons.prems(2) in_es by simp
  qed
  note ih = Cons.IH [OF dist later]
  have none1: "map_of es k1 = None" using notin by (simp add: map_of_eq_None_iff)
  have unroll: "fold (sweepEntry env now) (e # es) vm = fold (sweepEntry env now) es vm1"
    by (simp add: e vm1_def)
  show ?case
  proof (cases "k = k1")
    case True
    have "startOf vm1 k1 = sweepOutcome env now k1 t1 \<and>
          callsFor k1 vm1 = callsFor k1 vm @ sweepCalls env now k1 t1"
      using sweepEntry_key [OF here, of env now] by (simp add: vm1_def)
    then show ?thesis
      unfolding unroll using ih none1 True e by simp
  next
    case False
    have "startOf vm1 k = startOf vm k \<and> callsFor k vm1 = callsFor k vm"
      using sweepEntry_other [OF False, of env now t1 vm] by (simp add: vm1_def)
    then show ?thesis
      unfolding unroll using ih False e by (simp split: option.splits)
  qed
qed

lemma checkVoiceActivity_entry:
  assumes "wellFormed vm"
  shows "startOf (checkVoiceActivity env now vm) k =
           (case startOf vm k of None \<Rightarrow> None | Some t \<Rightarrow> sweepOutcome env now k t) \<and>
         callsFor k (checkVoiceActivity env now vm) =
           callsFor k vm @ (case startOf vm k of None \<Rightarrow> [] | Some t \<Rightarrow> sweepCalls env now k t)"
proof -
  have d: "distinct (map fst (voiceJoinTimes vm))" using assms by (simp add: wellFormed_def)
  have all: "\<forall>e \<in> set (voiceJoinTimes vm). startOf vm (fst e) = Some (snd e)"
    using d by (auto simp: startOf_def)
  from sweep_fold [OF d all, of env now k] show ?thesis
    by (simp add: checkVoiceActivity_def startOf_def split: option.splits)
qed

lemma fold_wellFormed:
  "wellFormed vm \<Longrightarrow> wellFormed (fold (sweepEntry env now) es vm)"
  by (induction es arbitrary: vm) (simp_all add: sweepEntry_wellFormed)

lemma checkVoiceActivity_wellFormed:
  "wellFormed vm \<Longrightarrow> wellFormed (checkVoiceActivity env now vm)"
  by (simp add: checkVoiceActivity_def fold_wellFormed)

lemma step_keeps_start:
  assumes "wellFormed vm" "startOf vm k = Some t" "t \<noteq> 0" "\<not> endsInterval k t step"
  shows "startOf (voiceStepApply step vm) k = Some t \<and>
         callsFor k (voiceStepApply step vm) = callsFor k vm \<and>
         wellFormed (voiceStepApply step vm)"
proof (cases step)
  case (VoiceUpdate now upd)
  show ?thesis
  proof (cases "(vuGuildId upd, vuUserId upd) = k")
    case True
    then have "handleVoiceStateUpdate vm now upd = vm"
      using update_tracked [of vm upd t now] assms VoiceUpdate by simp
    then show ?thesis using assms VoiceUpdate by simp
  next
    case False
    then show ?thesis
      using update_other_key [of k upd vm now] update_wellFormed [OF assms(1), of now upd]
        assms VoiceUpdate by auto
  qed
next
  case (Sweep env now)
  then show ?thesis
    using checkVoiceActivity_entry [OF assms(1), of env now k]
      checkVoiceActivity_wellFormed [OF assms(1), of env now] assms
    by (auto simp: sweepOutcome_def sweepCalls_def)
qed

lemma run_keeps_start:
  assumes "wellFormed vm" "startOf vm k = Some t" "t \<noteq> 0" "\<not> list_ex (endsInterval k t) steps"
  shows "startOf (voiceRun vm steps) k = Some t \<and>
         callsFor k (voiceRun vm steps) = callsFor k vm"
  using assms unfolding voiceRun_def
proof (induction steps arbitrary: vm)
  case Nil
  then show ?case by simp
next
  case (Cons step steps)
  have no: "\<not> endsInterval k t step" "\<not> list_ex (endsInterval k t) steps"
    using Cons.prems(4) by simp_all
  note one = step_keeps_start [OF Cons.prems(1,2,3) no(1)]
  from Cons.IH [of "voiceStepApply step vm"] one no(2) Cons.prems(3)
  show ?case by simp
qed

text \<open>
  Claim C10 (as amended). Handlers run one after the other. Let key \<open>k\<close> be tracked with a
  start \<open>t\<close> (a clock reading, so not 0).
  A voice-state update of \<open>k\<close> that is not an exit from eligibility leaves the whole
  tracker unchanged; in particular a redundant transition into eligibility does not
  overwrite \<open>t\<close>. An exit flushes the elapsed time once (when it exceeds 10 s) and then
  clears the entry. Updates of other users do not touch \<open>k\<close>. A start is written by an
  update only when the key has no entry and the user enters eligibility. A sweep clears
  the entry when the guild is unavailable or the member is no longer eligible (after the
  flush); when at least 285000 ms have elapsed it credits a fixed 300000 ms, whatever the
  elapsed time is, and moves the start to the sweep's time; otherwise it leaves \<open>t\<close>; it
  makes at most one call for \<open>k\<close>. Over every run of updates and sweeps none of which ends
  the interval, the start is still \<open>t\<close> and nothing has been flushed for \<open>k\<close>.
\<close>

theorem voice_start_never_overwritten:
  assumes "wellFormed vm" "startOf vm k = Some t" "t \<noteq> 0"
  shows
    "((vuGuildId upd, vuUserId upd) = k \<longrightarrow>
        (if exitsEligibility upd
         then startOf (handleVoiceStateUpdate vm now upd) k = None \<and>
              callsFor k (handleVoiceStateUpdate vm now upd) =
                callsFor k vm @ (if now - t > 10000 then [(fst k, snd k, now - t)] else [])
         else handleVoiceStateUpdate vm now upd = vm)) \<and>
     ((vuGuildId upd, vuUserId upd) \<noteq> k \<longrightarrow>
        startOf (handleVoiceStateUpdate vm now upd) k = Some t \<and>
        callsFor k (handleVoiceStateUpdate vm now upd) = callsFor k vm) \<and>
     (startOf vm0 (vuGuildId upd, vuUserId upd) = None \<longrightarrow>
        handleVoiceStateUpdate vm0 now upd =
          (if entersEligibility upd
           then vm0\<lparr>voiceJoinTimes :=
                      AList.update (vuGuildId upd, vuUserId upd) now (voiceJoinTimes vm0)\<rparr>
           else vm0)) \<and>
     startOf (checkVoiceActivity env now vm) k =
       (if guildAvailable env (fst k) \<and> memberValid env k
        then (if 285000 \<le> now - t then Some now else Some t)
        else None) \<and>
     callsFor k (checkVoiceActivity env now vm) = callsFor k vm @ sweepCalls env now k t \<and>
     (\<not> list_ex (endsInterval k t) steps \<longrightarrow>
        startOf (voiceRun vm steps) k = Some t \<and>
        callsFor k (voiceRun vm steps) = callsFor k vm)"
proof (intro conjI impI)
  assume key: "(vuGuildId upd, vuUserId upd) = k"
  have tracked: "startOf vm (vuGuildId upd, vuUserId upd) = Some t" using assms(2) key by simp
  show "if exitsEligibility upd
         then startOf (handleVoiceStateUpdate vm now upd) k = None \<and>
              callsFor k (handleVoiceStateUpdate vm now upd) =
                callsFor k vm @ (if now - t > 10000 then [(fst k, snd k, now - t)] else [])
         else handleVoiceStateUpdate vm now upd = vm"
    using update_tracked [OF tracked assms(3), of now] key
    by (auto simp: startOf_def callsFor_def delete_conv' processXpGainOnExit_def Let_def)
next
  assume "(vuGuildId upd, vuUserId upd) \<noteq> k"
  then have "k \<noteq> (vuGuildId upd, vuUserId upd)" by blast
  from update_other_key [OF this, of vm now] assms(2)
  show "startOf (handleVoiceStateUpdate vm now upd) k = Some t"
    "callsFor k (handleVoiceStateUpdate vm now upd) = callsFor k vm" by simp_all
next
  assume "startOf vm0 (vuGuildId upd, vuUserId upd) = None"
  then show "handleVoiceStateUpdate vm0 now upd =
          (if entersEligibility upd
           then vm0\<lparr>voiceJoinTimes :=
                      AList.update (vuGuildId upd, vuUserId upd) now (voiceJoinTimes vm0)\<rparr>
           else vm0)"
    by (rule update_untracked)
next
  show "startOf (checkVoiceActivity env now vm) k =
       (if guildAvailable env (fst k) \<and> memberValid env k
        then (if 285000 \<le> now - t then Some now else Some t)
        else None)"
    using checkVoiceActivity_entry [OF assms(1), of env now k] assms(2)
    by (simp add: sweepOutcome_def)
next
  show "callsFor k (checkVoiceActivity env now vm) = callsFor k vm @ sweepCalls env now k t"
    using checkVoiceActivity_entry [OF assms(1), of env now k] assms(2) by simp
next
  assume no: "\<not> list_ex (endsInterval k t) steps"
  from run_keeps_start [OF assms no]
  show "startOf (voiceRun vm steps) k = Some t"
    "callsFor k (voiceRun vm steps) = callsFor k vm" by simp_all
qed

theorem voice_start_never_overwritten_witness:
  "handleVoiceStateUpdate tracking 5000 undeafen = tracking \<and>
   startOf (handleVoiceStateUpdate tracking 20000 deafen) (''1'', ''2'') = None \<and>
   callsFor (''1'', ''2'') (handleVoiceStateUpdate tracking 20000 deafen) = [(''1'', ''2'', 19000)] \<and>
   startOf (checkVoiceActivity allPresent 100000 tracking) (''1'', ''2'') = Some 1000 \<and>
   startOf (checkVoiceActivity allPresent 301000 tracking) (''1'', ''2'') = Some 301000 \<and>
   startOf (voiceRun tracking
      [VoiceUpdate 5000 undeafen, Sweep allPresent 100000, VoiceUpdate 200000 undeafen])
      (''1'', ''2'') = Some 1000"
proof -
  have wf: "wellFormed tracking" by (simp add: wellFormed_def tracking_def)
  have st: "startOf tracking (''1'', ''2'') = Some 1000" by (simp add: startOf_def tracking_def)
  have nz: "(1000::int) \<noteq> 0" by simp
  have k1: "(vuGuildId undeafen, vuUserId undeafen) = (''1'', ''2'')"
    and k2: "(vuGuildId deafen, vuUserId deafen) = (''1'', ''2'')"
    by (simp_all add: undeafen_def deafen_def)
  have ex: "\<not> exitsEligibility undeafen" "exitsEligibility deafen"
    by (simp_all add: exitsEligibility_def undeafen_def deafen_def validForXp_def inVoice_def
        deafened_def)
  have env: "guildAvailable allPresent ''1''" "memberValid allPresent (''1'', ''2'')"
    by (simp_all add: allPresent_def)
  have c0: "callsFor (''1'', ''2'') tracking = []" by (simp add: callsFor_def tracking_def)
  note inst = voice_start_never_overwritten [OF wf st nz]
  have a: "handleVoiceStateUpdate tracking 5000 undeafen = tracking"
    using inst [of undeafen 5000] k1 ex by simp
  have b: "startOf (handleVoiceStateUpdate tracking 20000 deafen) (''1'', ''2'') = None"
    "callsFor (''1'', ''2'') (handleVoiceStateUpdate tracking 20000 deafen) = [(''1'', ''2'', 19000)]"
    using inst [of deafen 20000] k2 ex c0 by simp_all
  have c: "startOf (checkVoiceActivity allPresent 100000 tracking) (''1'', ''2'') = Some 1000"
    using inst [of undeafen 100000 tracking allPresent] env by simp
  have d: "startOf (checkVoiceActivity allPresent 301000 tracking) (''1'', ''2'') = Some 301000"
    using inst [of undeafen 301000 tracking allPresent] env by simp
  have no: "\<not> list_ex (endsInterval (''1'', ''2'') 1000)
      [VoiceUpdate 5000 undeafen, Sweep allPresent 100000, VoiceUpdate 200000 undeafen]"
    using ex env by simp
  have e: "startOf (voiceRun tracking
      [VoiceUpdate 5000 undeafen, Sweep allPresent 100000, VoiceUpdate 200000 undeafen])
      (''1'', ''2'') = Some 1000"
    using inst [of undeafen 0 tracking allPresent
        "[VoiceUpdate 5000 undeafen, Sweep allPresent 100000, VoiceUpdate 200000 undeafen]"] no
    by simp
  from a b c d e show ?thesis by simp
qed

text \<open>
  The claim as written concludes that the stored start is never reset and that no elapsed
  time is counted twice. A sweep does reset it: with the start at 1000, a sweep at 286000
  credits 300000 ms and moves the start to 286000; the user leaves at 301000 and 15000 ms
  more are flushed, 315000 ms in all for 300000 ms of presence. Time is lost as well:
  with the start at 16000, the sweep at 300000 does nothing, the sweep at 600000 credits
  300000 ms, and leaving at 600001 flushes nothing, 300000 ms for 584001 ms of presence.
  And when the user's exit is handled while the sweep waits for its grant, the exit
  flushes the whole interval again and the sweep then writes a start for a user who has
  left.
\<close>

theorem sweep_resets_start_counterexample:
  "startOf (checkVoiceActivity allPresent 286000 tracking) (''1'', ''2'') = Some 286000 \<and>
   callsFor (''1'', ''2'')
      (voiceRun tracking [Sweep allPresent 286000, VoiceUpdate 301000 deafen]) =
     [(''1'', ''2'', 300000), (''1'', ''2'', 15000)] \<and>
   credited (''1'', ''2'')
      (voiceRun tracking [Sweep allPresent 286000, VoiceUpdate 301000 deafen]) = 315000 \<and>
   credited (''1'', ''2'')
      (voiceRun lateJoiner
         [Sweep allPresent 300000, Sweep allPresent 600000, VoiceUpdate 600001 deafen]) = 300000 \<and>
   callsFor (''1'', ''2'')
      (sweepEntryInterrupted allPresent 286000 ((''1'', ''2''), 1000) 286001 deafen tracking) =
     [(''1'', ''2'', 300000), (''1'', ''2'', 285001)] \<and>
   startOf (sweepEntryInterrupted allPresent 286000 ((''1'', ''2''), 1000) 286001 deafen tracking)
      (''1'', ''2'') = Some 286000"
  by code_simp

end
